theory Spec2Isabelle
  imports Main
begin

section \<open>The collection iterator of vt-go (iterator.go)\<close>

text \<open>
  Go strings are byte sequences (\<open>string\<close>), Go's \<open>int\<close> is modelled by \<open>int\<close>: the
  only arithmetic of the file is \<open>skip + i + 1\<close>, \<open>sent++\<close> and \<open>it.count++\<close> on
  values bounded by the number of objects held in memory, far from 64-bit overflow.
  A \<open>*Object\<close> is a pointer that may be nil: \<open>'o option\<close>. A Go \<open>error\<close> value is
  an \<open>error\<close>, nil being \<open>None\<close>.
\<close>

datatype error = LibraryError string | UnmarshalTypeError string

datatype panic = SliceBoundsOutOfRange | SendOnClosedChannel | CloseOfClosedChannel

subsection \<open>Cursor codec\<close>

record cursor =
  Link :: string
  Offset :: int

text \<open>
  The standard library is not part of the repository. What the file calls from it is
  taken as a parameter, collected in one record:
  \<^item> \<open>write_token c\<close>: the bytes that reach the buffer when \<open>json.NewEncoder(fw).Encode(c)\<close>
    writes through the flate writer (best compression) into the raw URL base64 encoder;
  \<^item> \<open>read_value s\<close>: what the JSON decoder reads from the flate reader over the base64
    decoder of \<open>s\<close>: the first JSON value of the stream, or the error of the stage that
    failed (corrupt base64, corrupt deflate data, JSON syntax);
  \<^item> \<open>parse_url\<close>: \<open>url.Parse\<close>;
  \<^item> \<open>url_string u ps\<close>: \<open>u.String()\<close> after the pairs \<open>ps\<close> were added to \<open>u.Query()\<close> and
    the encoded query was stored in \<open>u.RawQuery\<close>;
  \<^item> \<open>itoa\<close>: \<open>strconv.Itoa\<close>.
\<close>

datatype json =
    JNull
  | JBool bool
  | JInt int \<comment> \<open>a number literal without fraction or exponent\<close>
  | JFrac \<comment> \<open>a number literal with a fraction or an exponent\<close>
  | JString string
  | JArray "json list"
  | JObject "(string \<times> json) list"

record 'u library =
  write_token :: "cursor \<Rightarrow> string"
  read_value :: "string \<Rightarrow> error + json"
  parse_url :: "string \<Rightarrow> error + 'u"
  url_string :: "'u \<Rightarrow> (string \<times> string) list \<Rightarrow> string"
  itoa :: "int \<Rightarrow> string"

text \<open>
  \<open>encoding/json\<close> stores an object into a struct key by key. A key selects the field of
  that name, or else the first field equal to it under simple case folding (in which the
  Kelvin sign U+212A folds to k and the long s U+017F to s). A value that does not fit
  the field's type is skipped, the earliest such error is kept, and the remaining keys are
  still stored. null leaves a string or an int as it is. A number literal fits an
  \<open>int\<close> when \<open>strconv.ParseInt\<close> accepts it in 64 bits.
\<close>

fun fold_key :: "string \<Rightarrow> string" where
  "fold_key [] = []"
| "fold_key (a # b # c # s) =
     (if of_char a = (0xE2::nat) \<and> of_char b = (0x84::nat) \<and> of_char c = (0xAA::nat)
      then CHR ''k'' # fold_key s
      else if of_char a = (0xC5::nat) \<and> of_char b = (0xBF::nat)
      then CHR ''s'' # fold_key (c # s)
      else (if 65 \<le> (of_char a::nat) \<and> (of_char a::nat) \<le> 90
            then char_of (of_char a + (32::nat)) else a) # fold_key (b # c # s))"
| "fold_key (a # b # s) =
     (if of_char a = (0xC5::nat) \<and> of_char b = (0xBF::nat)
      then CHR ''s'' # fold_key s
      else (if 65 \<le> (of_char a::nat) \<and> (of_char a::nat) \<le> 90
            then char_of (of_char a + (32::nat)) else a) # fold_key (b # s))"
| "fold_key (a # s) =
     (if 65 \<le> (of_char a::nat) \<and> (of_char a::nat) \<le> 90
      then char_of (of_char a + (32::nat)) else a) # fold_key s"

datatype field = Field_Link | Field_Offset

definition find_field :: "string \<Rightarrow> field option" where
  "find_field key =
     (if key = ''Link'' then Some Field_Link
      else if key = ''Offset'' then Some Field_Offset
      else if fold_key key = ''link'' then Some Field_Link
      else if fold_key key = ''offset'' then Some Field_Offset
      else None)"

definition store_string :: "json \<Rightarrow> cursor \<Rightarrow> error option \<times> cursor" where
  "store_string v c =
     (case v of
        JString s \<Rightarrow> (None, c\<lparr>Link := s\<rparr>)
      | JNull \<Rightarrow> (None, c)
      | _ \<Rightarrow> (Some (UnmarshalTypeError ''Link''), c))"

definition store_int :: "json \<Rightarrow> cursor \<Rightarrow> error option \<times> cursor" where
  "store_int v c =
     (case v of
        JInt n \<Rightarrow>
          (if - (2 ^ 63) \<le> n \<and> n < 2 ^ 63 then (None, c\<lparr>Offset := n\<rparr>)
           else (Some (UnmarshalTypeError ''Offset''), c))
      | JNull \<Rightarrow> (None, c)
      | _ \<Rightarrow> (Some (UnmarshalTypeError ''Offset''), c))"

fun store_object :: "(string \<times> json) list \<Rightarrow> cursor \<Rightarrow> error option \<times> cursor" where
  "store_object [] c = (None, c)"
| "store_object ((key, v) # kvs) c =
     (case (case find_field key of
              None \<Rightarrow> (None, c)
            | Some Field_Link \<Rightarrow> store_string v c
            | Some Field_Offset \<Rightarrow> store_int v c) of
        (e, c') \<Rightarrow>
          (case store_object kvs c' of
             (e', c'') \<Rightarrow> ((case e of None \<Rightarrow> e' | Some x \<Rightarrow> Some x), c'')))"

definition unmarshal :: "json \<Rightarrow> cursor \<Rightarrow> error option \<times> cursor" where
  "unmarshal v c =
     (case v of
        JObject kvs \<Rightarrow> store_object kvs c
      | JNull \<Rightarrow> (None, c)
      | _ \<Rightarrow> (Some (UnmarshalTypeError ''cursor''), c))"

text \<open>The JSON object that \<open>encoding/json\<close> writes for a cursor.\<close>

definition cursor_json :: "cursor \<Rightarrow> json" where
  "cursor_json c = JObject [(''Link'', JString (Link c)), (''Offset'', JInt (Offset c))]"

text \<open>\<open>func (c *cursor) encode() string\<close>\<close>

definition cursor_encode :: "'u library \<Rightarrow> cursor \<Rightarrow> string" where
  "cursor_encode lib c = (if Link c = [] then [] else write_token lib c)"

text \<open>
  \<open>func (c *cursor) decode(s string) error\<close>: the receiver is written in place, so the
  model returns the error together with the receiver after the call.
\<close>

definition cursor_decode :: "'u library \<Rightarrow> string \<Rightarrow> cursor \<Rightarrow> error option \<times> cursor" where
  "cursor_decode lib s c =
     (if s = [] then (None, c\<lparr>Link := [], Offset := 0\<rparr>)
      else (case read_value lib s of
              Inl e \<Rightarrow> (Some e, c)
            | Inr v \<Rightarrow> unmarshal v c))"

subsection \<open>Channels\<close>

text \<open>
  A channel is the sequence of values sent and not yet received, and whether it was
  closed. For the unbuffered \<open>done\<close> channel the sequence holds what blocked senders
  offer. A call either returns, panics, or waits (a receive on an empty open channel,
  a send that is retried for as long as the schedule is known).
\<close>

record 'a chan =
  buf :: "'a list"
  chan_closed :: bool

datatype 'a run = Returned 'a | Panicked panic | Waiting

definition make_chan :: "'a chan" where
  "make_chan = \<lparr>buf = [], chan_closed = False\<rparr>"

definition chan_send :: "'a \<Rightarrow> 'a chan \<Rightarrow> 'a chan run" where
  "chan_send x c =
     (if chan_closed c then Panicked SendOnClosedChannel else Returned (c\<lparr>buf := buf c @ [x]\<rparr>))"

text \<open>\<open>v, ok := <-c\<close>: \<open>Some v\<close> when a value arrives, \<open>None\<close> when \<open>ok\<close> is false.\<close>

definition chan_recv :: "'a chan \<Rightarrow> ('a option \<times> 'a chan) run" where
  "chan_recv c =
     (case buf c of
        x # xs \<Rightarrow> Returned (Some x, c\<lparr>buf := xs\<rparr>)
      | [] \<Rightarrow> (if chan_closed c then Returned (None, c) else Waiting))"

text \<open>
  \<open>close(c)\<close>. What a buffered channel holds stays there for the receiver. On an
  unbuffered channel the values are the offers of blocked senders, and closing the
  channel makes a blocked sender panic.
\<close>

definition chan_close :: "'a chan \<Rightarrow> 'a chan run" where
  "chan_close c =
     (if chan_closed c then Panicked CloseOfClosedChannel
      else Returned (c\<lparr>chan_closed := True\<rparr>))"

definition chan_close_unbuffered :: "'a chan \<Rightarrow> 'a chan run" where
  "chan_close_unbuffered c =
     (if chan_closed c then Panicked CloseOfClosedChannel
      else if buf c \<noteq> [] then Panicked SendOnClosedChannel
      else Returned (c\<lparr>chan_closed := True\<rparr>))"

subsection \<open>Iterator\<close>

text \<open>
  \<open>Links\<close> and the response of \<open>Client.GetData\<close> are declared in other files of the
  package. \<open>GetData(url, &objs)\<close> fills \<open>objs\<close> and returns the response that carries
  the links and the metadata, or an error; the client is the function \<open>client\<close>.
\<close>

record Links =
  Self :: string
  Next :: string

record ('o, 'm) Response =
  Data :: "'o option list"
  Links :: Links
  Meta :: "'m option"

datatype 'o item =
    CollectionObject (object: "'o option") (item_cursor: cursor)
  | ErrorItem error

record ('u, 'o, 'm) Iterator =
  client :: "'u \<Rightarrow> error + ('o, 'm) Response"
  ch :: "'o item chan"
  done' :: "bool chan"
  next' :: "'o option"
  err :: "error option"
  closed :: bool
  limit :: int
  count :: int
  batchSize :: int
  filter' :: string
  cursor :: string
  descriptorsOnly :: bool
  links :: Links
  meta :: "'m option"

type_synonym ('u, 'o, 'm) IteratorOption = "('u, 'o, 'm) Iterator \<Rightarrow> ('u, 'o, 'm) Iterator"

definition WithCursor :: "string \<Rightarrow> ('u, 'o, 'm) IteratorOption" where
  "WithCursor c = (\<lambda>it. it\<lparr>cursor := c\<rparr>)"

definition WithFilter :: "string \<Rightarrow> ('u, 'o, 'm) IteratorOption" where
  "WithFilter f = (\<lambda>it. it\<lparr>filter' := f\<rparr>)"

definition WithBatchSize :: "int \<Rightarrow> ('u, 'o, 'm) IteratorOption" where
  "WithBatchSize n = (\<lambda>it. it\<lparr>batchSize := n\<rparr>)"

definition WithLimit :: "int \<Rightarrow> ('u, 'o, 'm) IteratorOption" where
  "WithLimit n = (\<lambda>it. it\<lparr>limit := n\<rparr>)"

definition WithDescriptorsOnly :: "bool \<Rightarrow> ('u, 'o, 'm) IteratorOption" where
  "WithDescriptorsOnly b = (\<lambda>it. it\<lparr>descriptorsOnly := b\<rparr>)"

text \<open>The struct literal of \<open>newIterator\<close>: every field not named there has its zero value.\<close>

definition new_Iterator :: "('u \<Rightarrow> error + ('o, 'm) Response) \<Rightarrow> ('u, 'o, 'm) Iterator" where
  "new_Iterator cli =
     \<lparr>client = cli, ch = make_chan, done' = make_chan, next' = None, err = None,
      closed = False, limit = 0, count = 0, batchSize = 0, filter' = [], cursor = [],
      descriptorsOnly = False, links = \<lparr>Self = [], Next = []\<rparr>, meta = None\<rparr>"

text \<open>
  \<open>newIterator\<close> ends with \<open>go it.iterate(skip)\<close>: the model returns the iterator
  together with the \<open>skip\<close> the producer is started with, or the error.
\<close>

definition newIterator ::
  "'u library \<Rightarrow> ('u \<Rightarrow> error + ('o, 'm) Response) \<Rightarrow> 'u \<Rightarrow> ('u, 'o, 'm) IteratorOption list
     \<Rightarrow> error + (('u, 'o, 'm) Iterator \<times> int)" where
  "newIterator lib cli u options =
     (let skip = 0;
          it = fold (\<lambda>opt it. opt it) options (new_Iterator cli)
      in if cursor it \<noteq> [] then
           (case cursor_decode lib (cursor it) \<lparr>Link = [], Offset = 0\<rparr> of
              (Some e, c) \<Rightarrow> Inl e
            | (None, c) \<Rightarrow> Inr (it\<lparr>links := (links it)\<lparr>Next := Link c\<rparr>\<rparr>, Offset c))
         else
           (let q = (if batchSize it > 0 then [(''limit'', itoa lib (batchSize it))] else [])
                  @ (if filter' it \<noteq> [] then [(''filter'', filter' it)] else [])
                  @ (if descriptorsOnly it then [(''descriptors_only'', ''true'')] else [])
            in Inr (it\<lparr>links := (links it)\<lparr>Next := url_string lib u q\<rparr>\<rparr>, skip)))"

subsection \<open>Consumer side\<close>

text \<open>\<open>func (it *Iterator) Next() bool\<close>\<close>

definition Iterator_Next ::
  "'u library \<Rightarrow> ('u, 'o, 'm) Iterator \<Rightarrow> (bool \<times> ('u, 'o, 'm) Iterator) run" where
  "Iterator_Next lib it =
     (if limit it > 0 \<and> count it = limit it then Returned (False, it)
      else
        (case chan_recv (ch it) of
           Waiting \<Rightarrow> Waiting
         | Panicked p \<Rightarrow> Panicked p
         | Returned (None, c) \<Rightarrow> Returned (False, it\<lparr>ch := c\<rparr>)
         | Returned (Some (CollectionObject obj cur), c) \<Rightarrow>
             Returned (obj \<noteq> None,
               it\<lparr>ch := c, next' := obj, cursor := cursor_encode lib cur, count := count it + 1\<rparr>)
         | Returned (Some (ErrorItem e), c) \<Rightarrow>
             Returned (False, it\<lparr>ch := c, next' := None, err := Some e\<rparr>)))"

definition Iterator_Get :: "('u, 'o, 'm) Iterator \<Rightarrow> 'o option" where
  "Iterator_Get it = next' it"


definition Iterator_Meta :: "('u, 'o, 'm) Iterator \<Rightarrow> 'm option" where
  "Iterator_Meta it = meta it"

definition Iterator_Error :: "('u, 'o, 'm) Iterator \<Rightarrow> error option" where
  "Iterator_Error it = err it"

text \<open>
  \<open>func (it *Iterator) Close()\<close>: the send on the unbuffered \<open>done\<close> channel is an
  offer that the producer's select takes.
\<close>

definition Iterator_Close :: "('u, 'o, 'm) Iterator \<Rightarrow> ('u, 'o, 'm) Iterator run" where
  "Iterator_Close it =
     (if \<not> closed it then
        (case chan_send True (done' (it\<lparr>closed := True\<rparr>)) of
           Returned d \<Rightarrow> Returned (it\<lparr>closed := True, done' := d\<rparr>)
         | Panicked p \<Rightarrow> Panicked p
         | Waiting \<Rightarrow> Waiting)
      else Returned it)"

subsection \<open>Producer side\<close>

datatype status = ok | retry | stop

text \<open>
  Which case a \<open>select\<close> takes depends on the consumer and on the run-time's choice among
  the ready cases. A schedule lists, for the successive selects of the producer, the case
  taken.
\<close>

datatype select_case = case_done | case_send | case_default

text \<open>\<open>func (it *Iterator) trySendToChannel(item interface{}) int\<close>\<close>

definition trySendToChannel ::
  "select_case \<Rightarrow> 'o item \<Rightarrow> ('u, 'o, 'm) Iterator \<Rightarrow> (status \<times> ('u, 'o, 'm) Iterator) run" where
  "trySendToChannel c item it =
     (case c of
        case_done \<Rightarrow> Returned (stop, it\<lparr>done' := (done' it)\<lparr>buf := tl (buf (done' it))\<rparr>\<rparr>)
      | case_send \<Rightarrow>
          (case chan_send item (ch it) of
             Returned c' \<Rightarrow> Returned (ok, it\<lparr>ch := c'\<rparr>)
           | Panicked p \<Rightarrow> Panicked p
           | Waiting \<Rightarrow> Waiting)
      | case_default \<Rightarrow> Returned (retry, it))"

text \<open>
  \<open>func (it *Iterator) sendToChannel(item interface{}) int\<close>: the loop sleeps and tries
  again on \<open>retry\<close>; with the schedule used up it is still retrying.
\<close>

fun sendToChannel ::
  "select_case list \<Rightarrow> 'o item \<Rightarrow> ('u, 'o, 'm) Iterator
     \<Rightarrow> (status \<times> select_case list \<times> ('u, 'o, 'm) Iterator) run" where
  "sendToChannel [] item it = Waiting"
| "sendToChannel (c # sched) item it =
     (case trySendToChannel c item it of
        Returned (ok, it') \<Rightarrow> Returned (ok, sched, it')
      | Returned (retry, it') \<Rightarrow> sendToChannel sched item it'
      | Returned (stop, it') \<Rightarrow> Returned (stop, sched, it')
      | Panicked p \<Rightarrow> Panicked p
      | Waiting \<Rightarrow> Waiting)"

text \<open>\<open>func (it *Iterator) getMoreObjects() ([]*Object, error)\<close>\<close>

definition getMoreObjects ::
  "'u library \<Rightarrow> ('u, 'o, 'm) Iterator \<Rightarrow> (error + 'o option list) \<times> ('u, 'o, 'm) Iterator" where
  "getMoreObjects lib it =
     (case parse_url lib (Next (links it)) of
        Inl e \<Rightarrow> (Inl e, it)
      | Inr nextURL \<Rightarrow>
          (case client it nextURL of
             Inl e \<Rightarrow> (Inl e, it)
           | Inr resp \<Rightarrow> (Inr (Data resp), it\<lparr>links := Links resp, meta := Meta resp\<rparr>)))"

text \<open>
  The body of \<open>for i, object := range objects\<close> in \<open>iterate\<close>, at index \<open>i\<close> of the
  \<open>n\<close> objects left after the slice. The status is \<open>stop\<close> when the body left through
  \<open>break loop\<close>.
\<close>

fun range_objects ::
  "select_case list \<Rightarrow> int \<Rightarrow> nat \<Rightarrow> nat \<Rightarrow> 'o option list \<Rightarrow> int \<Rightarrow> ('u, 'o, 'm) Iterator
     \<Rightarrow> (status \<times> select_case list \<times> int \<times> ('u, 'o, 'm) Iterator) run" where
  "range_objects sched skip n i [] sent it = Returned (ok, sched, sent, it)"
| "range_objects sched skip n i (obj # rest) sent it =
     (let co = CollectionObject obj
                 (if int i = int n - 1 then \<lparr>Link = Next (links it), Offset = 0\<rparr>
                  else \<lparr>Link = Self (links it), Offset = skip + int i + 1\<rparr>)
      in case sendToChannel sched co it of
           Returned (st, sched', it') \<Rightarrow>
             (if st = stop then Returned (stop, sched', sent, it')
              else range_objects sched' skip n (Suc i) rest (sent + 1) it')
         | Panicked p \<Rightarrow> Panicked p
         | Waiting \<Rightarrow> Waiting)"

text \<open>
  One pass through the body of the loop labelled \<open>loop\<close> in \<open>iterate\<close>. The boolean
  tells whether the loop goes on to its next iteration (with \<open>skip = 0\<close>) or was left
  through \<open>break loop\<close>. On a fetch error \<open>objects\<close> is nil.
\<close>

definition loop_body ::
  "'u library \<Rightarrow> select_case list \<Rightarrow> int \<Rightarrow> int \<Rightarrow> ('u, 'o, 'm) Iterator
     \<Rightarrow> (bool \<times> select_case list \<times> int \<times> ('u, 'o, 'm) Iterator) run" where
  "loop_body lib sched skip sent it =
     (case getMoreObjects lib it of
        (r, it1) \<Rightarrow>
          (case (case r of
                   Inl e \<Rightarrow> sendToChannel sched (ErrorItem e) it1
                 | Inr objs \<Rightarrow> Returned (ok, sched, it1)) of
             Returned (st, sched2, it2) \<Rightarrow>
               (if st = stop then Returned (False, sched2, sent, it2)
                else
                  (let objects = (case r of Inl e \<Rightarrow> [] | Inr objs \<Rightarrow> objs)
                   in if skip < 0 \<or> int (length objects) < skip
                      then Panicked SliceBoundsOutOfRange
                      else
                        (let objects = drop (nat skip) objects
                         in case range_objects sched2 skip (length objects) 0 objects sent it2 of
                              Returned (st3, sched3, sent3, it3) \<Rightarrow>
                                (if st3 = stop then Returned (False, sched3, sent3, it3)
                                 else if length objects = 0 \<or> Next (links it3) = []
                                 then Returned (False, sched3, sent3, it3)
                                 else Returned (True, sched3, sent3, it3))
                            | Panicked p \<Rightarrow> Panicked p
                            | Waiting \<Rightarrow> Waiting)))
           | Panicked p \<Rightarrow> Panicked p
           | Waiting \<Rightarrow> Waiting))"

text \<open>The loop labelled \<open>loop\<close>: \<open>for it.limit == 0 || sent < it.limit\<close>.\<close>

function iterate_loop ::
  "'u library \<Rightarrow> select_case list \<Rightarrow> int \<Rightarrow> int \<Rightarrow> ('u, 'o, 'm) Iterator
     \<Rightarrow> ('u, 'o, 'm) Iterator run" where
  "iterate_loop lib sched skip sent it =
     (if limit it = 0 \<or> sent < limit it then
        (case loop_body lib sched skip sent it of
           Returned (continue, sched', sent', it') \<Rightarrow>
             (if continue then iterate_loop lib sched' 0 sent' it' else Returned it')
         | Panicked p \<Rightarrow> Panicked p
         | Waiting \<Rightarrow> Waiting)
      else Returned it)"
  by pat_completeness auto
termination
proof -
  have send: "length sched' < length sched"
    if "sendToChannel sched item it = Returned (st, sched', it')"
    for sched item it st sched' it'
    using that
  proof (induction sched arbitrary: it)
    case Nil
    then show ?case by simp
  next
    case (Cons c sched)
    then show ?case
      by (cases c) (force simp: trySendToChannel_def chan_send_def split: run.splits if_splits)+
  qed
  have range: "length sched' \<le> length sched \<and> (objs \<noteq> [] \<longrightarrow> length sched' < length sched)"
    if "range_objects sched skip n i objs sent it = Returned (st, sched', sent', it')"
    for sched skip n i objs sent it st sched' sent' it'
    using that
  proof (induction objs arbitrary: sched i sent it)
    case Nil
    then show ?case by simp
  next
    case (Cons obj rest)
    then show ?case
      by (fastforce simp: Let_def split: run.splits if_splits dest: send)
  qed
  have body: "length sched' < length sched"
    if "loop_body lib sched skip sent it = Returned (True, sched', sent', it')"
    for lib sched skip sent it sched' sent' it'
    using that unfolding loop_body_def
    by (auto simp: Let_def split: prod.splits sum.splits run.splits if_splits
          dest!: range send)
  show ?thesis
    by (relation "measure (\<lambda>(lib, sched, skip, sent, it). length sched)")
       (auto dest: body)
qed

declare iterate_loop.simps [simp del]

text \<open>
  \<open>func (it *Iterator) iterate(skip int)\<close>: the loop, then \<open>it.closed = true\<close>,
  \<open>close(it.ch)\<close>, \<open>close(it.done)\<close>.
\<close>

definition iterate ::
  "'u library \<Rightarrow> select_case list \<Rightarrow> int \<Rightarrow> ('u, 'o, 'm) Iterator \<Rightarrow> ('u, 'o, 'm) Iterator run" where
  "iterate lib sched skip it =
     (case iterate_loop lib sched skip 0 it of
        Returned it' \<Rightarrow>
          (case chan_close (ch it') of
             Returned c \<Rightarrow>
               (case chan_close_unbuffered (done' it') of
                  Returned d \<Rightarrow> Returned (it'\<lparr>closed := True, ch := c, done' := d\<rparr>)
                | Panicked p \<Rightarrow> Panicked p
                | Waiting \<Rightarrow> Waiting)
           | Panicked p \<Rightarrow> Panicked p
           | Waiting \<Rightarrow> Waiting)
      | Panicked p \<Rightarrow> Panicked p
      | Waiting \<Rightarrow> Waiting)"

subsection \<open>Calling the iterator\<close>

text \<open>
  Producer and consumer run concurrently. They share the channel \<open>ch\<close> and no field that
  both write: \<open>Next\<close> writes \<open>next\<close>, \<open>cursor\<close>, \<open>count\<close> and \<open>err\<close>, the producer writes
  \<open>links\<close>, \<open>meta\<close> and \<open>closed\<close>, and \<open>limit\<close> is only read once the producer runs. The
  channel is first-in first-out with one sender and one receiver, and a receive waits for
  a value or for the close, so the consumer's \<open>k\<close>-th receive returns the \<open>k\<close>-th value
  the producer sent. A run is therefore described by the producer's pass over a schedule,
  in which \<open>ch\<close> collects what was sent (the capacity of 50 only delays a send: a full
  channel is a \<open>case_default\<close> of the schedule), followed by the consumer's calls.
\<close>

text \<open>\<open>k\<close> successive calls of \<open>it.Next()\<close>, with what each returned.\<close>

fun Next_calls ::
  "nat \<Rightarrow> 'u library \<Rightarrow> ('u, 'o, 'm) Iterator \<Rightarrow> (bool list \<times> ('u, 'o, 'm) Iterator) run" where
  "Next_calls 0 lib it = Returned ([], it)"
| "Next_calls (Suc k) lib it =
     (case Iterator_Next lib it of
        Returned (b, it') \<Rightarrow>
          (case Next_calls k lib it' of
             Returned (bs, it'') \<Rightarrow> Returned (b # bs, it'')
           | Panicked p \<Rightarrow> Panicked p
           | Waiting \<Rightarrow> Waiting)
      | Panicked p \<Rightarrow> Panicked p
      | Waiting \<Rightarrow> Waiting)"

text \<open>
  The loop of the documentation of \<open>Client.Iterator\<close>,
  \<open>for it.Next() { obj := it.Get(); ... }\<close>: the objects it sees, and the iterator
  after the call of \<open>Next\<close> that returned false.
\<close>

function Next_loop ::
  "'u library \<Rightarrow> ('u, 'o, 'm) Iterator \<Rightarrow> ('o option list \<times> ('u, 'o, 'm) Iterator) run" where
  "Next_loop lib it =
     (case Iterator_Next lib it of
        Returned (b, it') \<Rightarrow>
          (if b then
             (case Next_loop lib it' of
                Returned (objs, it'') \<Rightarrow> Returned (Iterator_Get it' # objs, it'')
              | Panicked p \<Rightarrow> Panicked p
              | Waiting \<Rightarrow> Waiting)
           else Returned ([], it'))
      | Panicked p \<Rightarrow> Panicked p
      | Waiting \<Rightarrow> Waiting)"
  by pat_completeness auto
termination
proof -
  have "length (buf (ch it')) < length (buf (ch it))"
    if "Iterator_Next lib it = Returned (True, it')" for lib it it'
    using that
    by (auto simp: Iterator_Next_def chan_recv_def
          split: if_splits list.splits option.splits item.splits)
  then show ?thesis
    by (relation "measure (\<lambda>(lib, it). length (buf (ch it)))") auto
qed

declare Next_loop.simps [simp del]

subsection \<open>The tagging of a page, in the words of the specification\<close>

text \<open>
  Of a page whose first \<open>skip\<close> items are dropped, each remaining item except the last
  carries the page's self link and the offset one past its position in the page; the
  last item carries the next page's link and offset zero.
\<close>

definition spec_tag_page :: "Links \<Rightarrow> nat \<Rightarrow> 'o option list \<Rightarrow> 'o item list" where
  "spec_tag_page l skip page =
     map (\<lambda>k. CollectionObject (page ! k)
                (if Suc k = length page then \<lparr>Link = Next l, Offset = 0\<rparr>
                 else \<lparr>Link = Self l, Offset = int k + 1\<rparr>))
       [skip ..< length page]"

subsection \<open>Backends that serve a sequence of pages\<close>

text \<open>
  The backend serves the pages \<open>ps\<close> from the URL \<open>u\<close> on: the fetch of \<open>u\<close> returns the
  first page, every page holds at least one object, the next link of a page is the URL at
  which the backend serves the page after it, and the next link of the last page is empty.
\<close>

fun pages_served ::
  "'u library \<Rightarrow> ('u \<Rightarrow> error + ('o, 'm) Response) \<Rightarrow> string \<Rightarrow> ('o, 'm) Response list \<Rightarrow> bool" where
  "pages_served lib cli u [] = False"
| "pages_served lib cli u (p # ps) =
     ((case parse_url lib u of Inl e \<Rightarrow> False | Inr nextURL \<Rightarrow> cli nextURL = Inr p)
      \<and> Data p \<noteq> []
      \<and> (if ps = [] then Next (Links p) = []
         else Next (Links p) \<noteq> [] \<and> pages_served lib cli (Next (Links p)) ps))"


text \<open>The items the producer sends for these pages when it starts at \<open>skip\<close> in the first.\<close>

fun spec_tag_pages :: "nat \<Rightarrow> ('o, 'm) Response list \<Rightarrow> 'o item list" where
  "spec_tag_pages skip [] = []"
| "spec_tag_pages skip (p # ps) = spec_tag_page (Links p) skip (Data p) @ spec_tag_pages 0 ps"

subsection \<open>A library and a backend to run the definitions on\<close>

text \<open>
  URLs are kept as their strings. The tokens are deflate streams in raw URL base64 of the
  JSON texts that \<open>read_value\<close> returns for them; the third one carries
  \<^verbatim>\<open>{"Link":"x","Offset":"y"}\<close>.
\<close>

definition example_library :: "string library" where
  "example_library =
     \<lparr>write_token = (\<lambda>c.
        if c = \<lparr>Link = ''/p2'', Offset = 0\<rparr> then ''q1byyczLVrJS0i8wUtJR8k9LK04tUbIyqOUCAA''
        else if c = \<lparr>Link = ''/p4'', Offset = 2\<rparr> then ''q1byyczLVrJS0i8wUdJR8k9LK04tUbIyquUCAA''
        else if c = \<lparr>Link = ''/p3'', Offset = 1\<rparr> then ''q1byyczLVrJS0i8wVtJR8k9LK04tUbIyrOUCAA''
        else ''AwA''),
      read_value = (\<lambda>s.
        if s = ''q1byyczLVrJS0i8wUtJR8k9LK04tUbIyqOUCAA''
        then Inr (JObject [(''Link'', JString ''/p2''), (''Offset'', JInt 0)])
        else if s = ''q1byyczLVrJS0i8wUdJR8k9LK04tUbIyquUCAA''
        then Inr (JObject [(''Link'', JString ''/p4''), (''Offset'', JInt 2)])
        else if s = ''q1byyczLVrJS0i8wVtJR8k9LK04tUbIyrOUCAA''
        then Inr (JObject [(''Link'', JString ''/p3''), (''Offset'', JInt 1)])
        else if s = ''q1byyczLVrJSqlDSUfJPSytOLQFyKpVquQA''
        then Inr (JObject [(''Link'', JString ''x''), (''Offset'', JString ''y'')])
        else Inl (LibraryError ''unexpected EOF'')),
      parse_url = (\<lambda>s. Inr s),
      url_string = (\<lambda>u q. u),
      itoa = (\<lambda>n. ''0'')\<rparr>"

text \<open>
  The backend serves the objects 1, 2 at \<open>/p1\<close> and 3, 4 at \<open>/p2\<close>, the next page of
  \<open>/p1\<close>; the objects 1, 2, 3, 4 in one page at \<open>/p4\<close>; the objects 1, 2 at \<open>/p5\<close>,
  whose next page \<open>/p3\<close> it fails to serve, as every other URL.
\<close>

definition example_client :: "string \<Rightarrow> error + (nat, unit) Response" where
  "example_client u =
     (if u = ''/p1''
      then Inr \<lparr>Data = [Some 1, Some 2], Links = \<lparr>Self = ''/p1'', Next = ''/p2''\<rparr>, Meta = None\<rparr>
      else if u = ''/p2''
      then Inr \<lparr>Data = [Some 3, Some 4], Links = \<lparr>Self = ''/p2'', Next = []\<rparr>, Meta = None\<rparr>
      else if u = ''/p4''
      then Inr \<lparr>Data = [Some 1, Some 2, Some 3, Some 4],
                Links = \<lparr>Self = ''/p4'', Next = []\<rparr>, Meta = None\<rparr>
      else if u = ''/p5''
      then Inr \<lparr>Data = [Some 1, Some 2], Links = \<lparr>Self = ''/p5'', Next = ''/p3''\<rparr>, Meta = None\<rparr>
      else Inl (LibraryError ''not found''))"

section \<open>Cursor codec: properties\<close>

lemma unmarshal_cursor_json:
  "- (2 ^ 63) \<le> Offset p \<Longrightarrow> Offset p < 2 ^ 63 \<Longrightarrow> unmarshal (cursor_json p) c = (None, p)"
  by (simp add: unmarshal_def cursor_json_def find_field_def store_string_def store_int_def)

text \<open>
  C1, as stated, fails: a record with an empty link and offset 1 is encoded as the empty
  token, which decodes to the empty record.
\<close>

theorem cursor_roundtrip_empty_link_counterexample:
  "cursor_encode example_library \<lparr>Link = [], Offset = 1\<rparr> = []
   \<and> cursor_decode example_library (cursor_encode example_library \<lparr>Link = [], Offset = 1\<rparr>)
        \<lparr>Link = [], Offset = 1\<rparr>
      = (None, \<lparr>Link = [], Offset = 0\<rparr>)
   \<and> \<lparr>Link = [], Offset = 0\<rparr> \<noteq> \<lparr>Link = [], Offset = (1::int)\<rparr>"
  by (simp add: cursor_encode_def cursor_decode_def)

text \<open>
  C1 (amended): for every Position Record \<open>p\<close> whose link is not empty, decoding the token
  produced by encoding \<open>p\<close> yields \<open>p\<close> again, whatever the target held before, provided
  the library reads back from the token the JSON object it wrote for \<open>p\<close> (and the token
  it wrote is not empty). Every record with an empty link, whatever its offset, is encoded
  as the empty string, and the empty string decodes to the empty record: a record with an
  empty link comes back with offset zero, so it comes back as itself when its offset is
  zero.
\<close>

theorem cursor_roundtrip:
  "(Link p \<noteq> [] \<and> - (2 ^ 63) \<le> Offset p \<and> Offset p < 2 ^ 63
      \<and> write_token lib p \<noteq> [] \<and> read_value lib (write_token lib p) = Inr (cursor_json p)
      \<longrightarrow> cursor_decode lib (cursor_encode lib p) c = (None, p))
   \<and> (Link p = [] \<longrightarrow>
        cursor_encode lib p = []
        \<and> cursor_decode lib (cursor_encode lib p) c = (None, \<lparr>Link = [], Offset = 0\<rparr>))
   \<and> (Link p = [] \<and> Offset p = 0 \<longrightarrow> cursor_decode lib (cursor_encode lib p) c = (None, p))
   \<and> cursor_decode lib [] c = (None, \<lparr>Link = [], Offset = 0\<rparr>)"
proof (intro conjI impI)
  assume h: "Link p \<noteq> [] \<and> - (2 ^ 63) \<le> Offset p \<and> Offset p < 2 ^ 63
      \<and> write_token lib p \<noteq> [] \<and> read_value lib (write_token lib p) = Inr (cursor_json p)"
  then have "unmarshal (cursor_json p) c = (None, p)" by (simp add: unmarshal_cursor_json)
  with h show "cursor_decode lib (cursor_encode lib p) c = (None, p)"
    by (simp add: cursor_encode_def cursor_decode_def)
next
  assume "Link p = []"
  then show "cursor_encode lib p = []" by (simp add: cursor_encode_def)
next
  assume "Link p = []"
  then show "cursor_decode lib (cursor_encode lib p) c = (None, \<lparr>Link = [], Offset = 0\<rparr>)"
    by (simp add: cursor_encode_def cursor_decode_def)
next
  assume "Link p = [] \<and> Offset p = 0"
  then have "p = \<lparr>Link = [], Offset = 0\<rparr>" by simp
  then show "cursor_decode lib (cursor_encode lib p) c = (None, p)"
    by (simp add: cursor_encode_def cursor_decode_def)
next
  show "cursor_decode lib [] c = (None, \<lparr>Link = [], Offset = 0\<rparr>)"
    by (simp add: cursor_decode_def)
qed

theorem cursor_roundtrip_witness:
  "cursor_decode example_library (cursor_encode example_library \<lparr>Link = ''/p2'', Offset = 0\<rparr>)
     \<lparr>Link = ''/p1'', Offset = 7\<rparr>
   = (None, \<lparr>Link = ''/p2'', Offset = 0\<rparr>)
   \<and> cursor_encode example_library \<lparr>Link = [], Offset = 5\<rparr> = []
   \<and> cursor_decode example_library (cursor_encode example_library \<lparr>Link = [], Offset = 5\<rparr>)
       \<lparr>Link = ''/p1'', Offset = 7\<rparr>
     = (None, \<lparr>Link = [], Offset = 0\<rparr>)
   \<and> cursor_decode example_library (cursor_encode example_library \<lparr>Link = [], Offset = 0\<rparr>)
       \<lparr>Link = ''/p1'', Offset = 7\<rparr>
     = (None, \<lparr>Link = [], Offset = 0\<rparr>)"
proof -
  have h: "Link \<lparr>Link = ''/p2'', Offset = 0\<rparr> \<noteq> []
      \<and> - (2 ^ 63) \<le> Offset \<lparr>Link = ''/p2'', Offset = 0\<rparr>
      \<and> Offset \<lparr>Link = ''/p2'', Offset = 0\<rparr> < 2 ^ 63
      \<and> write_token example_library \<lparr>Link = ''/p2'', Offset = 0\<rparr> \<noteq> []
      \<and> read_value example_library (write_token example_library \<lparr>Link = ''/p2'', Offset = 0\<rparr>)
          = Inr (cursor_json \<lparr>Link = ''/p2'', Offset = 0\<rparr>)"
    by (simp add: example_library_def cursor_json_def)
  have a: "cursor_decode example_library
             (cursor_encode example_library \<lparr>Link = ''/p2'', Offset = 0\<rparr>)
             \<lparr>Link = ''/p1'', Offset = 7\<rparr>
           = (None, \<lparr>Link = ''/p2'', Offset = 0\<rparr>)"
    using h cursor_roundtrip [of "\<lparr>Link = ''/p2'', Offset = 0\<rparr>" example_library
        "\<lparr>Link = ''/p1'', Offset = 7\<rparr>"]
    by blast
  have e5: "Link \<lparr>Link = [], Offset = (5::int)\<rparr> = []" by simp
  have b: "cursor_encode example_library \<lparr>Link = [], Offset = 5\<rparr> = []
         \<and> cursor_decode example_library
             (cursor_encode example_library \<lparr>Link = [], Offset = 5\<rparr>)
             \<lparr>Link = ''/p1'', Offset = 7\<rparr>
           = (None, \<lparr>Link = [], Offset = 0\<rparr>)"
    using e5 cursor_roundtrip [of "\<lparr>Link = [], Offset = 5\<rparr>" example_library
        "\<lparr>Link = ''/p1'', Offset = 7\<rparr>"]
    by blast
  have e0: "Link \<lparr>Link = [], Offset = (0::int)\<rparr> = []
          \<and> Offset \<lparr>Link = [], Offset = (0::int)\<rparr> = 0" by simp
  have c: "cursor_decode example_library
             (cursor_encode example_library \<lparr>Link = [], Offset = 0\<rparr>)
             \<lparr>Link = ''/p1'', Offset = 7\<rparr>
           = (None, \<lparr>Link = [], Offset = 0\<rparr>)"
    using e0 cursor_roundtrip [of "\<lparr>Link = [], Offset = 0\<rparr>" example_library
        "\<lparr>Link = ''/p1'', Offset = 7\<rparr>"]
    by blast
  from a b c show ?thesis by blast
qed

text \<open>
  C7, as stated, fails: the token of \<^verbatim>\<open>{"Link":"x","Offset":"y"}\<close> is not empty, its
  decoding fails on the offset, and the target's link has been overwritten.
\<close>

theorem cursor_decode_partial_counterexample:
  "cursor_decode example_library ''q1byyczLVrJSqlDSUfJPSytOLQFyKpVquQA''
     \<lparr>Link = ''/p1'', Offset = 2\<rparr>
   = (Some (UnmarshalTypeError ''Offset''), \<lparr>Link = ''x'', Offset = 2\<rparr>)"
  by (simp add: cursor_decode_def example_library_def unmarshal_def find_field_def
        store_string_def store_int_def)

text \<open>
  C7 (amended): for every non-empty input string \<open>s\<close>, \<open>decode(s)\<close> returns at most one
  error; when the token cannot be read (bad encoding, decompression failure, malformed
  JSON text) the target Position Record is left as it was before the call; and whenever
  \<open>decode\<close> fails on the cursor given to \<open>newIterator\<close>, whose target is a fresh record,
  \<open>newIterator\<close> returns that error and no iterator.
\<close>

theorem cursor_decode_failure:
  assumes "s \<noteq> []"
  shows "(read_value lib s = Inl e \<longrightarrow> cursor_decode lib s c = (Some e, c))
       \<and> (fst (cursor_decode lib s \<lparr>Link = [], Offset = 0\<rparr>) = Some e'
            \<longrightarrow> newIterator lib cli u [WithCursor s] = Inl e')"
  using assms
  by (auto simp: cursor_decode_def newIterator_def WithCursor_def new_Iterator_def Let_def
        split: sum.splits prod.splits option.splits)

theorem cursor_decode_failure_witness:
  "cursor_decode example_library ''AwA'' \<lparr>Link = ''/p1'', Offset = 2\<rparr>
     = (Some (LibraryError ''unexpected EOF''), \<lparr>Link = ''/p1'', Offset = 2\<rparr>)
   \<and> newIterator example_library example_client ''/p1''
        [WithCursor ''q1byyczLVrJSqlDSUfJPSytOLQFyKpVquQA'']
     = Inl (UnmarshalTypeError ''Offset'')"
proof -
  have r: "read_value example_library ''AwA'' = Inl (LibraryError ''unexpected EOF'')"
    by (simp add: example_library_def)
  have d: "fst (cursor_decode example_library ''q1byyczLVrJSqlDSUfJPSytOLQFyKpVquQA''
             \<lparr>Link = [], Offset = 0\<rparr>) = Some (UnmarshalTypeError ''Offset'')"
    by (simp add: cursor_decode_def example_library_def unmarshal_def find_field_def
          store_string_def store_int_def)
  have a: "cursor_decode example_library ''AwA'' \<lparr>Link = ''/p1'', Offset = 2\<rparr>
             = (Some (LibraryError ''unexpected EOF''), \<lparr>Link = ''/p1'', Offset = 2\<rparr>)"
    using r cursor_decode_failure [of "''AwA''" example_library "LibraryError ''unexpected EOF''"
        "\<lparr>Link = ''/p1'', Offset = 2\<rparr>" "LibraryError []" example_client "''/p1''"]
    by simp
  have b: "newIterator example_library example_client ''/p1''
             [WithCursor ''q1byyczLVrJSqlDSUfJPSytOLQFyKpVquQA'']
           = Inl (UnmarshalTypeError ''Offset'')"
    using d cursor_decode_failure [of "''q1byyczLVrJSqlDSUfJPSytOLQFyKpVquQA''" example_library
        "LibraryError []" "\<lparr>Link = [], Offset = 0\<rparr>" "UnmarshalTypeError ''Offset''"
        example_client "''/p1''"]
    by simp
  from a b show ?thesis by simp
qed

section \<open>Producer: sends, pages and passes of the loop\<close>

lemma sendToChannel_no_done:
  "case_done \<notin> set sched \<Longrightarrow> 0 < count_list sched case_send \<Longrightarrow> \<not> chan_closed (ch it)
     \<Longrightarrow> \<exists>sched'. sendToChannel sched item it
                   = Returned (ok, sched', it\<lparr>ch := (ch it)\<lparr>buf := buf (ch it) @ [item]\<rparr>\<rparr>)
               \<and> case_done \<notin> set sched'
               \<and> count_list sched' case_send = count_list sched case_send - 1"
proof (induction sched)
  case Nil
  then show ?case by simp
next
  case (Cons c sched)
  then show ?case
    by (cases c) (auto simp: trySendToChannel_def chan_send_def)
qed

lemma range_objects_no_done:
  "case_done \<notin> set sched \<Longrightarrow> length (objs :: 'o option list) \<le> count_list sched case_send
     \<Longrightarrow> \<not> chan_closed (ch it)
     \<Longrightarrow> \<exists>sched'. range_objects sched skip n i objs sent it
                   = Returned (ok, sched', sent + int (length objs),
                       it\<lparr>ch := (ch it)\<lparr>buf := buf (ch it) @
                         map (\<lambda>(k, obj). CollectionObject obj
                                (if int k = int n - 1 then \<lparr>Link = Next (links it), Offset = 0\<rparr>
                                 else \<lparr>Link = Self (links it), Offset = skip + int k + 1\<rparr>))
                           (zip [i ..< i + length objs] objs)\<rparr>\<rparr>)
               \<and> case_done \<notin> set sched'
               \<and> count_list sched' case_send = count_list sched case_send - length objs"
proof (induction objs arbitrary: sched i sent it)
  case Nil
  then show ?case by simp
next
  case (Cons obj rest)
  define f where "f = (\<lambda>(k, x). CollectionObject (x::'o option)
                                (if int k = int n - 1 then \<lparr>Link = Next (links it), Offset = 0\<rparr>
                                 else \<lparr>Link = Self (links it), Offset = skip + int k + 1\<rparr>))"
  define co where "co = f (i, obj)"
  define it1 where "it1 = it\<lparr>ch := (ch it)\<lparr>buf := buf (ch it) @ [co]\<rparr>\<rparr>"
  define T where "T = map f (zip [Suc i ..< Suc i + length rest] rest)"
  have lk: "links it1 = links it" by (simp add: it1_def)
  from Cons.prems obtain sched1 where
    s1: "sendToChannel sched co it = Returned (ok, sched1, it1)"
    and nd1: "case_done \<notin> set sched1"
    and c1: "count_list sched1 case_send = count_list sched case_send - 1"
    using sendToChannel_no_done [of sched it co] unfolding it1_def by auto
  have l1: "length rest \<le> count_list sched1 case_send" using Cons.prems c1 by simp
  have o1: "\<not> chan_closed (ch it1)" using Cons.prems by (simp add: it1_def)
  obtain sched2 where
    r: "range_objects sched1 skip n (Suc i) rest (sent + 1) it1
          = Returned (ok, sched2, sent + 1 + int (length rest),
              it1\<lparr>ch := (ch it1)\<lparr>buf := buf (ch it1) @ T\<rparr>\<rparr>)"
    and nd2: "case_done \<notin> set sched2"
    and c2: "count_list sched2 case_send = count_list sched1 case_send - length rest"
    using Cons.IH [OF nd1 l1 o1, of "Suc i" "sent + 1"] unfolding T_def f_def lk by blast
  have up: "[i ..< i + length (obj # rest)] = i # [Suc i ..< Suc i + length rest]"
    by (subst upt_rec) simp
  have tg: "map f (zip [i ..< i + length (obj # rest)] (obj # rest)) = co # T"
    unfolding up T_def co_def by simp
  have st: "it1\<lparr>ch := (ch it1)\<lparr>buf := buf (ch it1) @ T\<rparr>\<rparr>
            = it\<lparr>ch := (ch it)\<lparr>buf := buf (ch it) @ co # T\<rparr>\<rparr>"
    by (simp add: it1_def)
  have "range_objects sched skip n i (obj # rest) sent it
          = Returned (ok, sched2, sent + int (length (obj # rest)),
              it\<lparr>ch := (ch it)\<lparr>buf := buf (ch it) @ co # T\<rparr>\<rparr>)"
    using s1 r st by (simp add: co_def f_def Let_def)
  then show ?case
    unfolding tg [symmetric] f_def using nd2 c1 c2 by auto
qed

lemma tags_spec:
  "s \<le> length page \<Longrightarrow>
   map (\<lambda>(k, obj). CollectionObject obj
          (if int k = int (length (drop s page)) - 1 then \<lparr>Link = Next l, Offset = 0\<rparr>
           else \<lparr>Link = Self l, Offset = int s + int k + 1\<rparr>))
     (zip [0 ..< 0 + length (drop s page)] (drop s page))
   = spec_tag_page l s page"
  unfolding spec_tag_page_def
  by (rule nth_equalityI) (auto simp: add.commute)

lemma getMoreObjects_cases:
  "getMoreObjects lib it = (r, it1) \<Longrightarrow>
     (\<exists>e. r = Inl e \<and> it1 = it)
   \<or> (\<exists>u resp. parse_url lib (Next (links it)) = Inr u \<and> client it u = Inr resp
         \<and> r = Inr (Data resp) \<and> it1 = it\<lparr>links := Links resp, meta := Meta resp\<rparr>)"
  by (auto simp: getMoreObjects_def split: sum.splits)

lemma loop_body_page:
  assumes g: "getMoreObjects lib it = (Inr page, it1)"
    and sk: "0 \<le> skip" "skip \<le> int (length page)"
    and nd: "case_done \<notin> set sched"
    and en: "length page - nat skip \<le> count_list sched case_send"
    and op: "\<not> chan_closed (ch it)"
  shows "\<exists>sched'. loop_body lib sched skip sent it
           = Returned (nat skip < length page \<and> Next (links it1) \<noteq> [], sched',
               sent + int (length page - nat skip),
               it1\<lparr>ch := (ch it1)\<lparr>buf := buf (ch it1)
                     @ spec_tag_page (links it1) (nat skip) page\<rparr>\<rparr>)
         \<and> case_done \<notin> set sched'
         \<and> count_list sched' case_send = count_list sched case_send - (length page - nat skip)"
proof -
  from g have ch1: "ch it1 = ch it"
    by (auto dest: getMoreObjects_cases)
  have s: "nat skip \<le> length page" using sk by simp
  have sk': "int (nat skip) = skip" using sk by simp
  have len: "length (drop (nat skip) page) \<le> count_list sched case_send" using en by simp
  have op1: "\<not> chan_closed (ch it1)" using op ch1 by simp
  from range_objects_no_done [OF nd len op1, of skip "length (drop (nat skip) page)" 0 sent]
  obtain sched' where
    r: "range_objects sched skip (length (drop (nat skip) page)) 0 (drop (nat skip) page) sent it1
          = Returned (ok, sched', sent + int (length (drop (nat skip) page)),
              it1\<lparr>ch := (ch it1)\<lparr>buf := buf (ch it1) @
                 map (\<lambda>(k, obj). CollectionObject obj
                        (if int k = int (length (drop (nat skip) page)) - 1
                         then \<lparr>Link = Next (links it1), Offset = 0\<rparr>
                         else \<lparr>Link = Self (links it1), Offset = skip + int k + 1\<rparr>))
                   (zip [0 ..< 0 + length (drop (nat skip) page)] (drop (nat skip) page))\<rparr>\<rparr>)"
    and nd': "case_done \<notin> set sched'"
    and c': "count_list sched' case_send
               = count_list sched case_send - length (drop (nat skip) page)"
    by blast
  have tg: "map (\<lambda>(k, obj). CollectionObject obj
                        (if int k = int (length (drop (nat skip) page)) - 1
                         then \<lparr>Link = Next (links it1), Offset = 0\<rparr>
                         else \<lparr>Link = Self (links it1), Offset = skip + int k + 1\<rparr>))
                   (zip [0 ..< 0 + length (drop (nat skip) page)] (drop (nat skip) page))
            = spec_tag_page (links it1) (nat skip) page"
    using tags_spec [OF s, of "links it1"] unfolding sk' by simp
  have "loop_body lib sched skip sent it
           = Returned (nat skip < length page \<and> Next (links it1) \<noteq> [], sched',
               sent + int (length page - nat skip),
               it1\<lparr>ch := (ch it1)\<lparr>buf := buf (ch it1)
                     @ spec_tag_page (links it1) (nat skip) page\<rparr>\<rparr>)"
    unfolding loop_body_def using g sk r [unfolded tg] by (auto simp: Let_def)
  with nd' c' show ?thesis by auto
qed


lemma sendToChannel_cases:
  "sendToChannel sched item it = Returned (st, sched', it') \<Longrightarrow>
     (st = ok \<and> it' = it\<lparr>ch := (ch it)\<lparr>buf := buf (ch it) @ [item]\<rparr>\<rparr>)
   \<or> (st = stop \<and> it' = it\<lparr>done' := (done' it)\<lparr>buf := tl (buf (done' it))\<rparr>\<rparr>)"
proof (induction sched arbitrary: it)
  case Nil
  then show ?case by simp
next
  case (Cons c sched)
  then show ?case
    by (cases c) (auto simp: trySendToChannel_def chan_send_def split: if_splits)
qed

lemma frame_self: "\<exists>c d. it = it\<lparr>ch := c, done' := d\<rparr>"
  by (rule exI [of _ "ch it"], rule exI [of _ "done' it"]) simp

lemma sendToChannel_frame:
  "sendToChannel sched item it = Returned (st, sched', it')
     \<Longrightarrow> \<exists>c d. it' = it\<lparr>ch := c, done' := d\<rparr>"
proof -
  assume "sendToChannel sched item it = Returned (st, sched', it')"
  then have "it' = it\<lparr>ch := ch it', done' := done' it'\<rparr>"
    by (auto dest!: sendToChannel_cases)
  then show ?thesis by blast
qed

lemma range_objects_prefix:
  "range_objects sched skip n i (objs :: 'o option list) sent it = Returned (st, sched', sent', it') \<Longrightarrow>
     \<exists>k\<le>length objs.
        buf (ch it') = buf (ch it) @
          take k (map (\<lambda>(k, obj). CollectionObject obj
                                (if int k = int n - 1 then \<lparr>Link = Next (links it), Offset = 0\<rparr>
                                 else \<lparr>Link = Self (links it), Offset = skip + int k + 1\<rparr>))
                           (zip [i ..< i + length objs] objs))
      \<and> sent' = sent + int k \<and> (st = ok \<longrightarrow> k = length objs)
      \<and> (\<exists>c d. it' = it\<lparr>ch := c, done' := d\<rparr>)"
proof (induction objs arbitrary: sched i sent it)
  case Nil
  then show ?case using frame_self [of it] by auto
next
  case (Cons obj rest)
  define f where "f = (\<lambda>(k, x). CollectionObject (x::'o option)
                                (if int k = int n - 1 then \<lparr>Link = Next (links it), Offset = 0\<rparr>
                                 else \<lparr>Link = Self (links it), Offset = skip + int k + 1\<rparr>))"
  define co where "co = f (i, obj)"
  have up: "[i ..< i + length (obj # rest)] = i # [Suc i ..< Suc i + length rest]"
    by (subst upt_rec) simp
  have tg: "map f (zip [i ..< i + length (obj # rest)] (obj # rest))
              = co # map f (zip [Suc i ..< Suc i + length rest] rest)"
    unfolding up co_def by simp
  from Cons.prems obtain st1 sched1 it1 where
    s1: "sendToChannel sched co it = Returned (st1, sched1, it1)"
    by (auto simp: Let_def co_def f_def split: run.splits)
  show ?case
  proof (cases "st1 = stop")
    case True
    with s1 Cons.prems have "st = stop" "sent' = sent" "it' = it1"
      by (auto simp: Let_def co_def f_def)
    moreover from s1 True have "it1 = it\<lparr>done' := (done' it)\<lparr>buf := tl (buf (done' it))\<rparr>\<rparr>"
      by (auto dest!: sendToChannel_cases)
    moreover have "\<exists>c d. it\<lparr>done' := (done' it)\<lparr>buf := tl (buf (done' it))\<rparr>\<rparr> = it\<lparr>ch := c, done' := d\<rparr>"
      by (rule exI [of _ "ch it"], rule exI [of _ "(done' it)\<lparr>buf := tl (buf (done' it))\<rparr>"]) simp
    ultimately show ?thesis
      by (intro exI [of _ 0]) simp
  next
    case False
    with s1 have i1: "it1 = it\<lparr>ch := (ch it)\<lparr>buf := buf (ch it) @ [co]\<rparr>\<rparr>"
      by (auto dest!: sendToChannel_cases)
    from False s1 Cons.prems have
      r: "range_objects sched1 skip n (Suc i) rest (sent + 1) it1 = Returned (st, sched', sent', it')"
      by (auto simp: Let_def co_def f_def)
    have lk: "links it1 = links it" by (simp add: i1)
    from Cons.IH [OF r] obtain k where k: "k \<le> length rest"
      "buf (ch it') = buf (ch it1) @ take k (map f (zip [Suc i ..< Suc i + length rest] rest))"
      "sent' = sent + 1 + int k" "st = ok \<longrightarrow> k = length rest"
      "\<exists>c d. it' = it1\<lparr>ch := c, done' := d\<rparr>"
      unfolding f_def lk by blast
    have "buf (ch it') = buf (ch it) @ take (Suc k) (map f (zip [i ..< i + length (obj # rest)] (obj # rest)))"
      unfolding tg using k(2) by (simp add: i1)
    moreover have "\<exists>c d. it' = it\<lparr>ch := c, done' := d\<rparr>"
      using k(5) by (auto simp: i1)
    ultimately show ?thesis
      unfolding f_def using k(1,3,4) by (intro exI [of _ "Suc k"]) auto
  qed
qed

lemma range_objects_frame:
  "range_objects sched skip n i objs sent it = Returned (st, sched', sent', it')
     \<Longrightarrow> \<exists>c d. it' = it\<lparr>ch := c, done' := d\<rparr>"
  by (auto dest!: range_objects_prefix)

lemma getMoreObjects_frame:
  "getMoreObjects lib it = (r, it1) \<Longrightarrow> \<exists>l m. it1 = it\<lparr>links := l, meta := m\<rparr>"
proof -
  assume "getMoreObjects lib it = (r, it1)"
  then have "it1 = it\<lparr>links := links it1, meta := meta it1\<rparr>"
    by (auto dest!: getMoreObjects_cases)
  then show ?thesis by blast
qed

lemma loop_body_frame:
  assumes "loop_body lib sched skip sent it = Returned (cont, sched', sent', it')"
  shows "\<exists>c d l m. it' = it\<lparr>ch := c, done' := d, links := l, meta := m\<rparr>"
proof -
  obtain r it1 where g: "getMoreObjects lib it = (r, it1)" by (cases "getMoreObjects lib it")
  then obtain l m where f1: "it1 = it\<lparr>links := l, meta := m\<rparr>"
    by (blast dest: getMoreObjects_frame)
  from assms g obtain st sched2 it2 where
    s: "(case r of Inl e \<Rightarrow> sendToChannel sched (ErrorItem e) it1
                 | Inr objs \<Rightarrow> Returned (ok, sched, it1)) = Returned (st, sched2, it2)"
    unfolding loop_body_def by (auto split: run.splits)
  have "\<exists>c d. it2 = it1\<lparr>ch := c, done' := d\<rparr>"
  proof (cases r)
    case (Inl e)
    with s show ?thesis by (auto dest: sendToChannel_frame)
  next
    case (Inr objs)
    with s have "it2 = it1\<lparr>ch := ch it1, done' := done' it1\<rparr>" by simp
    then show ?thesis by blast
  qed
  then obtain c d where f2: "it2 = it1\<lparr>ch := c, done' := d\<rparr>" by blast
  show ?thesis
  proof (cases "st = stop")
    case True
    with assms g s have "it' = it2" unfolding loop_body_def by simp
    with f1 f2 have "it' = it\<lparr>ch := c, done' := d, links := l, meta := m\<rparr>" by simp
    then show ?thesis by blast
  next
    case False
    with assms g s obtain st3 sched3 sent3 objs n where
      "range_objects sched2 skip n 0 objs sent it2 = Returned (st3, sched3, sent3, it')"
      unfolding loop_body_def by (auto simp: Let_def split: if_splits run.splits)
    then obtain c' d' where "it' = it2\<lparr>ch := c', done' := d'\<rparr>"
      by (blast dest: range_objects_frame)
    with f1 f2 have "it' = it\<lparr>ch := c', done' := d', links := l, meta := m\<rparr>" by simp
    then show ?thesis by blast
  qed
qed

lemma iterate_loop_frame:
  "iterate_loop lib sched skip sent it = Returned it'
     \<Longrightarrow> \<exists>c d l m. it' = it\<lparr>ch := c, done' := d, links := l, meta := m\<rparr>"
proof (induction lib sched skip sent it rule: iterate_loop.induct)
  case (1 lib sched skip sent it)
  show ?case
  proof (cases "limit it = 0 \<or> sent < limit it")
    case False
    with "1.prems" have "it' = it\<lparr>ch := ch it, done' := done' it, links := links it, meta := meta it\<rparr>"
      by (simp add: iterate_loop.simps)
    then show ?thesis by blast
  next
    case True
    with "1.prems" obtain cont sched' sent' it1 where
      b: "loop_body lib sched skip sent it = Returned (cont, sched', sent', it1)"
      by (subst (asm) iterate_loop.simps) (auto split: run.splits)
    then obtain c d l m where f1: "it1 = it\<lparr>ch := c, done' := d, links := l, meta := m\<rparr>"
      by (blast dest: loop_body_frame)
    show ?thesis
    proof (cases cont)
      case False
      with True b "1.prems" have "it' = it1" by (subst (asm) iterate_loop.simps) simp
      with f1 show ?thesis by blast
    next
      case c: True
      with True b "1.prems" have "iterate_loop lib sched' 0 sent' it1 = Returned it'"
        by (subst (asm) iterate_loop.simps) simp
      from "1.IH" [OF True b refl refl refl c this]
      obtain c' d' l' m' where "it' = it1\<lparr>ch := c', done' := d', links := l', meta := m'\<rparr>"
        by blast
      with f1 have "it' = it\<lparr>ch := c', done' := d', links := l', meta := m'\<rparr>" by simp
      then show ?thesis by blast
    qed
  qed
qed

lemma iterate_frame:
  "iterate lib sched skip it = Returned it'
     \<Longrightarrow> \<exists>c d l m. it' = it\<lparr>ch := c, done' := d, links := l, meta := m, closed := True\<rparr>"
proof -
  assume a: "iterate lib sched skip it = Returned it'"
  then obtain it1 where l: "iterate_loop lib sched skip 0 it = Returned it1"
    unfolding iterate_def by (auto split: run.splits)
  then obtain c d l m where f: "it1 = it\<lparr>ch := c, done' := d, links := l, meta := m\<rparr>"
    by (blast dest: iterate_loop_frame)
  from a l obtain c' d' where "it' = it1\<lparr>closed := True, ch := c', done' := d'\<rparr>"
    unfolding iterate_def by (auto split: run.splits)
  with f have "it' = it\<lparr>ch := c', done' := d', links := l, meta := m, closed := True\<rparr>" by simp
  then show ?thesis by blast
qed

lemma Iterator_Next_frame:
  "Iterator_Next lib it = Returned (b, it')
     \<Longrightarrow> \<exists>c x s n e. it' = it\<lparr>ch := c, next' := x, cursor := s, count := n, err := e\<rparr>"
proof -
  assume "Iterator_Next lib it = Returned (b, it')"
  then have "it' = it\<lparr>ch := ch it', next' := next' it', cursor := cursor it',
                       count := count it', err := err it'\<rparr>"
    by (auto simp: Iterator_Next_def split: if_splits run.splits option.splits item.splits prod.splits)
  then show ?thesis by blast
qed

section \<open>The tagging of the items of a page\<close>

lemma loop_body_prefix:
  assumes g: "getMoreObjects lib it = (Inr page, it1)"
    and sk: "0 \<le> skip" "skip \<le> int (length page)"
    and b: "loop_body lib sched skip sent it = Returned (cont, sched', sent', it')"
  shows "\<exists>k. buf (ch it') = buf (ch it) @ take k (spec_tag_page (links it1) (nat skip) page)
           \<and> sent' = sent + int k"
proof -
  from g have ch1: "ch it1 = ch it" by (auto dest: getMoreObjects_cases)
  have s: "nat skip \<le> length page" using sk by simp
  have sk': "int (nat skip) = skip" using sk by simp
  from b g sk obtain st3 sched3 where
    r: "range_objects sched skip (length (drop (nat skip) page)) 0 (drop (nat skip) page) sent it1
          = Returned (st3, sched3, sent', it')"
    unfolding loop_body_def by (auto simp: Let_def split: run.splits if_splits)
  from range_objects_prefix [OF r] obtain k where
    "buf (ch it') = buf (ch it1) @
          take k (map (\<lambda>(k, obj). CollectionObject obj
                        (if int k = int (length (drop (nat skip) page)) - 1
                         then \<lparr>Link = Next (links it1), Offset = 0\<rparr>
                         else \<lparr>Link = Self (links it1), Offset = skip + int k + 1\<rparr>))
                   (zip [0 ..< 0 + length (drop (nat skip) page)] (drop (nat skip) page)))"
    "sent' = sent + int k"
    by blast
  then show ?thesis
    using tags_spec [OF s, of "links it1"] unfolding sk' ch1 by auto
qed

lemma spec_tag_page_2:
  "spec_tag_page l 0 [x, y]
     = [CollectionObject x \<lparr>Link = Self l, Offset = 1\<rparr>, CollectionObject y \<lparr>Link = Next l, Offset = 0\<rparr>]"
  by (simp add: spec_tag_page_def upt_rec)

text \<open>
  C6: in a pass of the loop whose fetch returned \<open>page\<close>, with \<open>skip\<close> within the page, the
  items delivered are the first items of the specification's tagging of the page after
  its first \<open>skip\<close> items (each item but the last with the page's self link and the
  offset one past its position in the page, the last with the next link and offset
  zero): all of them when the producer is not cancelled and every send gets through, and
  the first \<open>k\<close> of them when the pass was left after \<open>k\<close> deliveries.
\<close>

theorem page_tagging:
  assumes "getMoreObjects lib it = (Inr page, it1)"
    and "0 \<le> skip" and "skip \<le> int (length page)"
  shows "(\<forall>cont sched' sent' it'.
            loop_body lib sched skip sent it = Returned (cont, sched', sent', it') \<longrightarrow>
              (\<exists>k. buf (ch it') = buf (ch it) @ take k (spec_tag_page (links it1) (nat skip) page)
                  \<and> sent' = sent + int k))
       \<and> (case_done \<notin> set sched \<and> length page - nat skip \<le> count_list sched case_send
            \<and> \<not> chan_closed (ch it) \<longrightarrow>
              (\<exists>cont sched' it'.
                 loop_body lib sched skip sent it
                   = Returned (cont, sched', sent + int (length page - nat skip), it')
               \<and> buf (ch it') = buf (ch it) @ spec_tag_page (links it1) (nat skip) page))"
proof (intro conjI allI impI)
  fix cont sched' sent' it'
  assume "loop_body lib sched skip sent it = Returned (cont, sched', sent', it')"
  from loop_body_prefix [OF assms this]
  show "\<exists>k. buf (ch it') = buf (ch it) @ take k (spec_tag_page (links it1) (nat skip) page)
           \<and> sent' = sent + int k" .
next
  assume a: "case_done \<notin> set sched \<and> length page - nat skip \<le> count_list sched case_send
            \<and> \<not> chan_closed (ch it)"
  from assms(1) have ch1: "ch it1 = ch it" by (auto dest: getMoreObjects_cases)
  from a loop_body_page [OF assms, of sched sent] obtain sched' where
    "loop_body lib sched skip sent it
           = Returned (nat skip < length page \<and> Next (links it1) \<noteq> [], sched',
               sent + int (length page - nat skip),
               it1\<lparr>ch := (ch it1)\<lparr>buf := buf (ch it1)
                     @ spec_tag_page (links it1) (nat skip) page\<rparr>\<rparr>)"
    by blast
  then show "\<exists>cont sched' it'.
                 loop_body lib sched skip sent it
                   = Returned (cont, sched', sent + int (length page - nat skip), it')
               \<and> buf (ch it') = buf (ch it) @ spec_tag_page (links it1) (nat skip) page"
    using ch1 by auto
qed

theorem page_tagging_witness:
  "loop_body example_library [case_send, case_default, case_send] 0 0
     ((new_Iterator example_client)\<lparr>links := \<lparr>Self = [], Next = ''/p1''\<rparr>\<rparr>)
   = Returned (True, [], 2,
       (new_Iterator example_client)
         \<lparr>links := \<lparr>Self = ''/p1'', Next = ''/p2''\<rparr>,
          ch := \<lparr>buf = [CollectionObject (Some 1) \<lparr>Link = ''/p1'', Offset = 1\<rparr>,
                       CollectionObject (Some 2) \<lparr>Link = ''/p2'', Offset = 0\<rparr>],
                 chan_closed = False\<rparr>\<rparr>)"
proof -
  let ?it = "(new_Iterator example_client)\<lparr>links := \<lparr>Self = [], Next = ''/p1''\<rparr>\<rparr>"
  let ?it1 = "?it\<lparr>links := \<lparr>Self = ''/p1'', Next = ''/p2''\<rparr>, meta := None\<rparr>"
  have g: "getMoreObjects example_library ?it = (Inr [Some 1, Some 2], ?it1)"
    by (simp add: getMoreObjects_def example_library_def example_client_def new_Iterator_def)
  have h: "case_done \<notin> set [case_send, case_default, case_send]
        \<and> length [Some (1::nat), Some 2] - nat 0 \<le> count_list [case_send, case_default, case_send] case_send
        \<and> \<not> chan_closed (ch ?it)"
    by (simp add: new_Iterator_def make_chan_def)
  from page_tagging [OF g, of 0 "[case_send, case_default, case_send]" 0] h
  obtain cont sched' it' where
    l: "loop_body example_library [case_send, case_default, case_send] 0 0 ?it
          = Returned (cont, sched', 0 + int (length [Some (1::nat), Some 2] - nat 0), it')"
    and bf: "buf (ch it') = buf (ch ?it) @ spec_tag_page (links ?it1) (nat 0) [Some 1, Some 2]"
    by auto
  have "loop_body example_library [case_send, case_default, case_send] 0 0 ?it
          = Returned (True, [], 2, ?it1\<lparr>ch := (ch ?it1)\<lparr>buf := 
               [CollectionObject (Some 1) \<lparr>Link = ''/p1'', Offset = 1\<rparr>,
                           CollectionObject (Some 2) \<lparr>Link = ''/p2'', Offset = 0\<rparr>]\<rparr>\<rparr>)"
    unfolding loop_body_def g
    by (simp add: trySendToChannel_def chan_send_def new_Iterator_def make_chan_def)
  with l bf show ?thesis
    by (simp add: spec_tag_page_2 new_Iterator_def make_chan_def)
qed

section \<open>A run of the producer on the example backend\<close>

lemma iterate_example_p1:
  "iterate example_library [case_send, case_send, case_send, case_send] 0
     ((new_Iterator example_client)\<lparr>links := \<lparr>Self = [], Next = ''/p1''\<rparr>\<rparr>)
   = Returned ((new_Iterator example_client)
       \<lparr>links := \<lparr>Self = ''/p2'', Next = []\<rparr>, closed := True,
        done' := \<lparr>buf = [], chan_closed = True\<rparr>,
        ch := \<lparr>buf = [CollectionObject (Some 1) \<lparr>Link = ''/p1'', Offset = 1\<rparr>,
                     CollectionObject (Some 2) \<lparr>Link = ''/p2'', Offset = 0\<rparr>,
                     CollectionObject (Some 3) \<lparr>Link = ''/p2'', Offset = 1\<rparr>,
                     CollectionObject (Some 4) \<lparr>Link = [], Offset = 0\<rparr>],
               chan_closed = True\<rparr>\<rparr>)"
  by (simp add: iterate_def iterate_loop.simps loop_body_def getMoreObjects_def
        example_library_def example_client_def new_Iterator_def make_chan_def
        trySendToChannel_def chan_send_def chan_close_def chan_close_unbuffered_def)


section \<open>Who writes which field\<close>

text \<open>
  C8, as stated, fails: the first page fetch of the producer, on the iterator that
  \<open>newIterator\<close> made, writes the links of the page into the iterator.
\<close>

theorem producer_writes_links_counterexample:
  "newIterator example_library example_client ''/p1'' []
     = Inr ((new_Iterator example_client)\<lparr>links := \<lparr>Self = [], Next = ''/p1''\<rparr>\<rparr>, 0)
   \<and> getMoreObjects example_library
        ((new_Iterator example_client)\<lparr>links := \<lparr>Self = [], Next = ''/p1''\<rparr>\<rparr>)
     = (Inr [Some 1, Some 2],
        (new_Iterator example_client)\<lparr>links := \<lparr>Self = ''/p1'', Next = ''/p2''\<rparr>\<rparr>)
   \<and> links ((new_Iterator example_client)\<lparr>links := \<lparr>Self = ''/p1'', Next = ''/p2''\<rparr>\<rparr>)
       \<noteq> links ((new_Iterator example_client)\<lparr>links := \<lparr>Self = [], Next = ''/p1''\<rparr>\<rparr>)"
  by (simp add: newIterator_def getMoreObjects_def example_library_def example_client_def
        new_Iterator_def Let_def)

text \<open>
  C8 (amended): the consumer-side \<open>Next\<close> writes the current object, the cursor, the
  count and the error, and never the links, the metadata or the closed flag. The producer
  never writes the current object, the cursor, the count or the error; its page fetch
  stores the links and the metadata of every page it fetched, and leaves the iterator as
  it is when the fetch fails; a producer that has returned has set the closed flag.
\<close>

theorem field_writers:
  "(Iterator_Next lib it = Returned (b, it') \<longrightarrow>
      links it' = links it \<and> meta it' = meta it \<and> closed it' = closed it)
   \<and> (iterate lib sched skip p = Returned p' \<longrightarrow>
      next' p' = next' p \<and> cursor p' = cursor p \<and> count p' = count p
      \<and> err p' = err p \<and> closed p')
   \<and> (getMoreObjects lib q = (Inr objs, q') \<longrightarrow>
      (\<exists>u resp. parse_url lib (Next (links q)) = Inr u \<and> client q u = Inr resp
         \<and> q' = q\<lparr>links := Links resp, meta := Meta resp\<rparr>))
   \<and> (getMoreObjects lib r = (Inl e, r') \<longrightarrow> r' = r)"
proof -
  have a: "links it' = links it \<and> meta it' = meta it \<and> closed it' = closed it"
    if "Iterator_Next lib it = Returned (b, it')"
  proof -
    from that obtain c x s n e where
      "it' = it\<lparr>ch := c, next' := x, cursor := s, count := n, err := e\<rparr>"
      by (blast dest: Iterator_Next_frame)
    then show ?thesis by simp
  qed
  have b: "next' p' = next' p \<and> cursor p' = cursor p \<and> count p' = count p
      \<and> err p' = err p \<and> closed p'"
    if "iterate lib sched skip p = Returned p'"
  proof -
    from that obtain c d l m where
      "p' = p\<lparr>ch := c, done' := d, links := l, meta := m, closed := True\<rparr>"
      by (blast dest: iterate_frame)
    then show ?thesis by simp
  qed
  have c: "\<exists>u resp. parse_url lib (Next (links q)) = Inr u \<and> client q u = Inr resp
         \<and> q' = q\<lparr>links := Links resp, meta := Meta resp\<rparr>"
    if "getMoreObjects lib q = (Inr objs, q')"
    using that by (auto dest: getMoreObjects_cases)
  have d: "r' = r" if "getMoreObjects lib r = (Inl e, r')"
    using that by (auto dest: getMoreObjects_cases)
  from a b c d show ?thesis by blast
qed

theorem field_writers_witness:
  "links ((new_Iterator example_client)
       \<lparr>closed := True,
        ch := \<lparr>buf = [], chan_closed = True\<rparr>,
        next' := None, err := Some (LibraryError ''not found'')\<rparr>) = \<lparr>Self = [], Next = []\<rparr>
   \<and> err ((new_Iterator example_client)
       \<lparr>links := \<lparr>Self = ''/p2'', Next = []\<rparr>, closed := True,
        done' := \<lparr>buf = [], chan_closed = True\<rparr>,
        ch := \<lparr>buf = [CollectionObject (Some 1) \<lparr>Link = ''/p1'', Offset = 1\<rparr>,
                     CollectionObject (Some 2) \<lparr>Link = ''/p2'', Offset = 0\<rparr>,
                     CollectionObject (Some 3) \<lparr>Link = ''/p2'', Offset = 1\<rparr>,
                     CollectionObject (Some 4) \<lparr>Link = [], Offset = 0\<rparr>],
               chan_closed = True\<rparr>\<rparr>) = None"
proof -
  let ?it0 = "(new_Iterator example_client)\<lparr>links := \<lparr>Self = [], Next = ''/p1''\<rparr>\<rparr>"
  let ?it1 = "(new_Iterator example_client)
       \<lparr>links := \<lparr>Self = ''/p2'', Next = []\<rparr>, closed := True,
        done' := \<lparr>buf = [], chan_closed = True\<rparr>,
        ch := \<lparr>buf = [CollectionObject (Some 1) \<lparr>Link = ''/p1'', Offset = 1\<rparr>,
                     CollectionObject (Some 2) \<lparr>Link = ''/p2'', Offset = 0\<rparr>,
                     CollectionObject (Some 3) \<lparr>Link = ''/p2'', Offset = 1\<rparr>,
                     CollectionObject (Some 4) \<lparr>Link = [], Offset = 0\<rparr>],
               chan_closed = True\<rparr>\<rparr>"
  let ?c1 = "(new_Iterator example_client)
       \<lparr>closed := True,
        ch := \<lparr>buf = [ErrorItem (LibraryError ''not found'')], chan_closed = True\<rparr>\<rparr>"
  let ?c2 = "(new_Iterator example_client)
       \<lparr>closed := True,
        ch := \<lparr>buf = [], chan_closed = True\<rparr>,
        next' := None, err := Some (LibraryError ''not found'')\<rparr>"
  let ?it3 = "(new_Iterator example_client)\<lparr>links := \<lparr>Self = [], Next = ''/p3''\<rparr>\<rparr>"
  have n: "Iterator_Next example_library ?c1 = Returned (False, ?c2)"
    by (simp add: Iterator_Next_def chan_recv_def new_Iterator_def)
  have i: "iterate example_library [case_send, case_send, case_send, case_send] 0 ?it0
             = Returned ?it1"
    by (rule iterate_example_p1)
  have g: "getMoreObjects example_library ?it0
             = (Inr [Some 1, Some 2], ?it0\<lparr>links := \<lparr>Self = ''/p1'', Next = ''/p2''\<rparr>\<rparr>)"
    by (simp add: getMoreObjects_def example_library_def example_client_def new_Iterator_def)
  have f: "getMoreObjects example_library ?it3 = (Inl (LibraryError ''not found''), ?it3)"
    by (simp add: getMoreObjects_def example_library_def example_client_def new_Iterator_def)
  note fw = field_writers [of example_library ?c1 False ?c2
      "[case_send, case_send, case_send, case_send]" 0 ?it0 ?it1
      ?it0 "[Some 1, Some 2]" "?it0\<lparr>links := \<lparr>Self = ''/p1'', Next = ''/p2''\<rparr>\<rparr>"
      ?it3 "LibraryError ''not found''" ?it3]
  from fw n have a: "links ?c2 = links ?c1" by blast
  from fw i have b: "err ?it1 = err ?it0" by blast
  have "links ?c1 = \<lparr>Self = [], Next = []\<rparr>" by (simp add: new_Iterator_def)
  moreover have "err ?it0 = None" by (simp add: new_Iterator_def)
  ultimately show ?thesis using a b by simp
qed

section \<open>A failing fetch after a cursor with an offset\<close>

text \<open>
  C9: the iterator is made from the token of the position (\<open>/p3\<close>, 1), the backend
  fails the fetch of \<open>/p3\<close>, and the consumer takes what is sent. The producer sends
  the error and then slices the nil \<open>objects\<close> at 1: it panics, and closes no channel.
\<close>

theorem fetch_error_after_skip_panics:
  "newIterator example_library example_client ''/p1''
     [WithCursor ''q1byyczLVrJS0i8wVtJR8k9LK04tUbIyrOUCAA'']
     = Inr ((new_Iterator example_client)
              \<lparr>cursor := ''q1byyczLVrJS0i8wVtJR8k9LK04tUbIyrOUCAA'',
               links := \<lparr>Self = [], Next = ''/p3''\<rparr>\<rparr>, 1)
   \<and> getMoreObjects example_library
        ((new_Iterator example_client)
              \<lparr>cursor := ''q1byyczLVrJS0i8wVtJR8k9LK04tUbIyrOUCAA'',
               links := \<lparr>Self = [], Next = ''/p3''\<rparr>\<rparr>)
     = (Inl (LibraryError ''not found''),
        (new_Iterator example_client)
              \<lparr>cursor := ''q1byyczLVrJS0i8wVtJR8k9LK04tUbIyrOUCAA'',
               links := \<lparr>Self = [], Next = ''/p3''\<rparr>\<rparr>)
   \<and> iterate example_library [case_send] 1
        ((new_Iterator example_client)
              \<lparr>cursor := ''q1byyczLVrJS0i8wVtJR8k9LK04tUbIyrOUCAA'',
               links := \<lparr>Self = [], Next = ''/p3''\<rparr>\<rparr>)
     = Panicked SliceBoundsOutOfRange"
  by (simp add: newIterator_def WithCursor_def cursor_decode_def unmarshal_def find_field_def
        store_string_def store_int_def Let_def
        iterate_def iterate_loop.simps loop_body_def getMoreObjects_def
        example_library_def example_client_def new_Iterator_def make_chan_def
        trySendToChannel_def chan_send_def)

section \<open>Close\<close>

lemma iterate_closed:
  "iterate lib sched skip it = Returned it' \<Longrightarrow> closed it'"
  by (auto dest!: iterate_frame)

text \<open>
  C10: a call of \<open>Close\<close> after a call of \<open>Close\<close> that returned, and a call of
  \<open>Close\<close> on the iterator that the producer left when it returned, return with the
  iterator as it was: nothing is sent on the \<open>done\<close> channel, and nothing panics.
\<close>

theorem Close_idempotent:
  "(Iterator_Close it = Returned it' \<longrightarrow> Iterator_Close it' = Returned it')
   \<and> (iterate lib sched skip p = Returned p' \<longrightarrow> Iterator_Close p' = Returned p')"
proof -
  have "closed it'" if "Iterator_Close it = Returned it'"
    using that by (auto simp: Iterator_Close_def chan_send_def split: if_splits)
  moreover have "closed p'" if "iterate lib sched skip p = Returned p'"
    using that by (rule iterate_closed)
  ultimately show ?thesis by (auto simp: Iterator_Close_def)
qed

theorem Close_idempotent_witness:
  "Iterator_Close ((new_Iterator example_client)
       \<lparr>closed := True, done' := \<lparr>buf = [True], chan_closed = False\<rparr>\<rparr>)
     = Returned ((new_Iterator example_client)
       \<lparr>closed := True, done' := \<lparr>buf = [True], chan_closed = False\<rparr>\<rparr>)
   \<and> Iterator_Close ((new_Iterator example_client)
       \<lparr>links := \<lparr>Self = ''/p2'', Next = []\<rparr>, closed := True,
        done' := \<lparr>buf = [], chan_closed = True\<rparr>,
        ch := \<lparr>buf = [CollectionObject (Some 1) \<lparr>Link = ''/p1'', Offset = 1\<rparr>,
                     CollectionObject (Some 2) \<lparr>Link = ''/p2'', Offset = 0\<rparr>,
                     CollectionObject (Some 3) \<lparr>Link = ''/p2'', Offset = 1\<rparr>,
                     CollectionObject (Some 4) \<lparr>Link = [], Offset = 0\<rparr>],
               chan_closed = True\<rparr>\<rparr>)
     = Returned ((new_Iterator example_client)
       \<lparr>links := \<lparr>Self = ''/p2'', Next = []\<rparr>, closed := True,
        done' := \<lparr>buf = [], chan_closed = True\<rparr>,
        ch := \<lparr>buf = [CollectionObject (Some 1) \<lparr>Link = ''/p1'', Offset = 1\<rparr>,
                     CollectionObject (Some 2) \<lparr>Link = ''/p2'', Offset = 0\<rparr>,
                     CollectionObject (Some 3) \<lparr>Link = ''/p2'', Offset = 1\<rparr>,
                     CollectionObject (Some 4) \<lparr>Link = [], Offset = 0\<rparr>],
               chan_closed = True\<rparr>\<rparr>)"
proof -
  let ?it0 = "(new_Iterator example_client)\<lparr>links := \<lparr>Self = [], Next = ''/p1''\<rparr>\<rparr>"
  let ?it1 = "(new_Iterator example_client)
       \<lparr>links := \<lparr>Self = ''/p2'', Next = []\<rparr>, closed := True,
        done' := \<lparr>buf = [], chan_closed = True\<rparr>,
        ch := \<lparr>buf = [CollectionObject (Some 1) \<lparr>Link = ''/p1'', Offset = 1\<rparr>,
                     CollectionObject (Some 2) \<lparr>Link = ''/p2'', Offset = 0\<rparr>,
                     CollectionObject (Some 3) \<lparr>Link = ''/p2'', Offset = 1\<rparr>,
                     CollectionObject (Some 4) \<lparr>Link = [], Offset = 0\<rparr>],
               chan_closed = True\<rparr>\<rparr>"
  let ?c0 = "new_Iterator example_client :: (string, nat, unit) Iterator"
  let ?c1 = "?c0\<lparr>closed := True, done' := \<lparr>buf = [True], chan_closed = False\<rparr>\<rparr>"
  have c: "Iterator_Close ?c0 = Returned ?c1"
    by (simp add: Iterator_Close_def chan_send_def new_Iterator_def make_chan_def)
  have i: "iterate example_library [case_send, case_send, case_send, case_send] 0 ?it0
             = Returned ?it1"
    by (rule iterate_example_p1)
  from Close_idempotent [of ?c0 ?c1 example_library
      "[case_send, case_send, case_send, case_send]" 0 ?it0 ?it1] c i
  show ?thesis by simp
qed

section \<open>Consumer: calls of Next\<close>

lemma Next_at_limit:
  "0 < limit it \<Longrightarrow> count it = limit it \<Longrightarrow> Iterator_Next lib it = Returned (False, it)"
  by (simp add: Iterator_Next_def)

lemma Next_calls_at_limit:
  "0 < limit it \<Longrightarrow> count it = limit it
     \<Longrightarrow> Next_calls m lib it = Returned (replicate m False, it)"
  by (induction m) (simp_all add: Next_at_limit)

lemma Next_count:
  assumes "Iterator_Next lib it = Returned (b, it')" and "0 < limit it" and "count it \<le> limit it"
  shows "limit it' = limit it \<and> count it' \<le> limit it
       \<and> (if b then count it' = count it + 1 else count it \<le> count it')"
  using assms
  by (auto simp: Iterator_Next_def chan_recv_def
        split: if_splits list.splits option.splits item.splits)

lemma Next_calls_trues:
  "0 < limit it \<Longrightarrow> count it \<le> limit it \<Longrightarrow> Next_calls k lib it = Returned (bs, it')
     \<Longrightarrow> int (length (filter (\<lambda>x. x) bs)) \<le> limit it - count it"
proof (induction k arbitrary: it bs)
  case 0
  then show ?case by simp
next
  case (Suc k)
  from Suc.prems(3) obtain b it1 bs1 where
    n: "Iterator_Next lib it = Returned (b, it1)"
    and r: "Next_calls k lib it1 = Returned (bs1, it')"
    and bs: "bs = b # bs1"
    by (auto split: run.splits)
  from Next_count [OF n Suc.prems(1,2)] have
    l: "limit it1 = limit it" and c: "count it1 \<le> limit it"
    and d: "if b then count it1 = count it + 1 else count it \<le> count it1"
    by simp_all
  from Suc.IH [OF _ _ r] l c Suc.prems(1)
  have "int (length (filter (\<lambda>x. x) bs1)) \<le> limit it - count it1" by simp
  with d bs show ?case by (cases b) simp_all
qed

section \<open>Producer and consumer over a sequence of pages\<close>

lemma length_spec_tag_page [simp]: "length (spec_tag_page l s page) = length page - s"
  by (simp add: spec_tag_page_def)

lemma length_spec_tag_pages_0:
  "length (spec_tag_pages 0 ps) = length (concat (map Data ps))"
  by (induction ps) simp_all

lemma length_spec_tag_pages:
  "length (spec_tag_pages s (p # ps)) = length (Data p) - s + length (concat (map Data ps))"
  by (simp add: length_spec_tag_pages_0)

lemma iterate_loop_pages:
  assumes "pages_served lib (client it) (Next (links it)) (p # ps)"
    and "limit it = 0"
    and "0 \<le> skip" and "nat skip < length (Data p)"
    and "case_done \<notin> set sched"
    and "length (spec_tag_pages (nat skip) (p # ps)) \<le> count_list sched case_send"
    and "\<not> chan_closed (ch it)"
  shows "iterate_loop lib sched skip sent it
           = Returned (it\<lparr>links := Links (last (p # ps)), meta := Meta (last (p # ps)),
                          ch := (ch it)\<lparr>buf := buf (ch it) @ spec_tag_pages (nat skip) (p # ps)\<rparr>\<rparr>)"
  using assms
proof (induction ps arbitrary: p sched skip sent it)
  case Nil
  let ?it1 = "it\<lparr>links := Links p, meta := Meta p\<rparr>"
  from Nil.prems(1) have g: "getMoreObjects lib it = (Inr (Data p), ?it1)"
    and nx: "Next (Links p) = []"
    by (auto simp: getMoreObjects_def split: sum.splits)
  have en: "length (Data p) - nat skip \<le> count_list sched case_send"
    using Nil.prems(6) by simp
  have sk: "skip \<le> int (length (Data p))" using Nil.prems(3,4) by simp
  from loop_body_page [OF g Nil.prems(3) sk Nil.prems(5) en Nil.prems(7), of sent]
  obtain sched' where
    "loop_body lib sched skip sent it
       = Returned (False, sched', sent + int (length (Data p) - nat skip),
           ?it1\<lparr>ch := (ch ?it1)\<lparr>buf := buf (ch ?it1)
                     @ spec_tag_page (links ?it1) (nat skip) (Data p)\<rparr>\<rparr>)"
    using nx by auto
  then show ?case
    using Nil.prems(2) by (subst iterate_loop.simps) simp
next
  case (Cons q ps)
  let ?it1 = "it\<lparr>links := Links p, meta := Meta p\<rparr>"
  let ?it2 = "?it1\<lparr>ch := (ch ?it1)\<lparr>buf := buf (ch ?it1)
                     @ spec_tag_page (links ?it1) (nat skip) (Data p)\<rparr>\<rparr>"
  from Cons.prems(1) have g: "getMoreObjects lib it = (Inr (Data p), ?it1)"
    and nx: "Next (Links p) \<noteq> []"
    and rest: "pages_served lib (client it) (Next (Links p)) (q # ps)"
    by (auto simp: getMoreObjects_def split: sum.splits)
  have en: "length (Data p) - nat skip \<le> count_list sched case_send"
    using Cons.prems(6) by simp
  have sk: "skip \<le> int (length (Data p))" using Cons.prems(3,4) by simp
  from loop_body_page [OF g Cons.prems(3) sk Cons.prems(5) en Cons.prems(7), of sent]
  obtain sched' where
    b: "loop_body lib sched skip sent it
       = Returned (True, sched', sent + int (length (Data p) - nat skip), ?it2)"
    and nd': "case_done \<notin> set sched'"
    and c': "count_list sched' case_send = count_list sched case_send - (length (Data p) - nat skip)"
    using nx Cons.prems(4) by auto
  have s2: "pages_served lib (client ?it2) (Next (links ?it2)) (q # ps)" using rest by simp
  have l2: "limit ?it2 = 0" using Cons.prems(2) by simp
  have q0: "nat 0 < length (Data q)" using rest by simp
  have e2: "length (spec_tag_pages (nat 0) (q # ps)) \<le> count_list sched' case_send"
    using Cons.prems(6) c' by simp
  have o2: "\<not> chan_closed (ch ?it2)" using Cons.prems(7) by simp
  from Cons.IH [OF s2 l2 _ q0 nd' e2 o2, of "sent + int (length (Data p) - nat skip)"]
  have "iterate_loop lib sched' 0 (sent + int (length (Data p) - nat skip)) ?it2
          = Returned (?it2\<lparr>links := Links (last (q # ps)), meta := Meta (last (q # ps)),
                          ch := (ch ?it2)\<lparr>buf := buf (ch ?it2) @ spec_tag_pages (nat 0) (q # ps)\<rparr>\<rparr>)"
    by simp
  then show ?case
    using b Cons.prems(2) by (subst iterate_loop.simps) simp
qed

lemma iterate_pages:
  assumes "pages_served lib (client it) (Next (links it)) (p # ps)"
    and "limit it = 0"
    and "0 \<le> skip" and "nat skip < length (Data p)"
    and "case_done \<notin> set sched"
    and "length (spec_tag_pages (nat skip) (p # ps)) \<le> count_list sched case_send"
    and "ch it = make_chan" and "done' it = make_chan"
  shows "iterate lib sched skip it
           = Returned (it\<lparr>links := Links (last (p # ps)), meta := Meta (last (p # ps)),
                          closed := True,
                          ch := \<lparr>buf = spec_tag_pages (nat skip) (p # ps), chan_closed = True\<rparr>,
                          done' := \<lparr>buf = [], chan_closed = True\<rparr>\<rparr>)"
proof -
  have op: "\<not> chan_closed (ch it)" using assms(7) by (simp add: make_chan_def)
  show ?thesis
    unfolding iterate_def iterate_loop_pages [OF assms(1-6) op]
    using assms(7,8) by (simp add: chan_close_def chan_close_unbuffered_def make_chan_def)
qed

lemma Next_object:
  assumes "limit it = 0" and "buf (ch it) = CollectionObject (Some x) c # rest"
  shows "Iterator_Next lib it
           = Returned (True, it\<lparr>ch := (ch it)\<lparr>buf := rest\<rparr>, next' := Some x,
                                 cursor := cursor_encode lib c, count := count it + 1\<rparr>)"
  using assms by (simp add: Iterator_Next_def chan_recv_def)


lemma Next_closed:
  assumes "limit it = 0" and "buf (ch it) = []" and "chan_closed (ch it)"
  shows "Iterator_Next lib it = Returned (False, it)"
  using assms by (simp add: Iterator_Next_def chan_recv_def)


lemma Next_loop_objects:
  assumes "limit it = 0" and "buf (ch it) = its @ rest"
    and "\<forall>i\<in>set its. \<exists>x c. i = CollectionObject (Some x) c"
  shows "Next_loop lib it
           = (case Next_loop lib (it\<lparr>ch := (ch it)\<lparr>buf := rest\<rparr>,
                  next' := (if its = [] then next' it else object (last its)),
                  cursor := (if its = [] then cursor it
                             else cursor_encode lib (item_cursor (last its))),
                  count := count it + int (length its)\<rparr>) of
                Returned (objs, it') \<Rightarrow> Returned (map object its @ objs, it')
              | Panicked p \<Rightarrow> Panicked p
              | Waiting \<Rightarrow> Waiting)"
  using assms
proof (induction its arbitrary: it)
  case Nil
  then have "it\<lparr>ch := (ch it)\<lparr>buf := rest\<rparr>, next' := next' it, cursor := cursor it,
                 count := count it + int 0\<rparr> = it" by simp
  then show ?case by (simp split: run.splits)
next
  case (Cons i its)
  from Cons.prems(3) obtain x c where i: "i = CollectionObject (Some x) c" by auto
  let ?it1 = "it\<lparr>ch := (ch it)\<lparr>buf := its @ rest\<rparr>, next' := Some x,
                                 cursor := cursor_encode lib c, count := count it + 1\<rparr>"
  have n: "Iterator_Next lib it = Returned (True, ?it1)"
    using Next_object [OF Cons.prems(1), of x c "its @ rest" lib] Cons.prems(2) i by simp
  have ih: "Next_loop lib ?it1
          = (case Next_loop lib (?it1\<lparr>ch := (ch ?it1)\<lparr>buf := rest\<rparr>,
                  next' := (if its = [] then next' ?it1 else object (last its)),
                  cursor := (if its = [] then cursor ?it1
                             else cursor_encode lib (item_cursor (last its))),
                  count := count ?it1 + int (length its)\<rparr>) of
                Returned (objs, it') \<Rightarrow> Returned (map object its @ objs, it')
              | Panicked p \<Rightarrow> Panicked p
              | Waiting \<Rightarrow> Waiting)"
    using Cons.prems by (intro Cons.IH) simp_all
  show ?case
    apply (subst Next_loop.simps)
    using n i ih
    by (simp add: Iterator_Get_def add.commute add.left_commute split: run.splits)
qed

lemma map_object_spec_tag_page: "map object (spec_tag_page l s page) = drop s page"
  unfolding spec_tag_page_def by (rule nth_equalityI) (auto simp: add.commute)

lemma map_object_spec_tag_pages:
  "map object (spec_tag_pages s (p # ps)) = drop s (Data p) @ concat (map Data ps)"
proof (induction ps arbitrary: s p)
  case Nil
  then show ?case by (simp add: map_object_spec_tag_page)
next
  case (Cons q ps)
  from Cons [of 0 q] show ?case by (simp add: map_object_spec_tag_page)
qed

lemma spec_tag_page_objects:
  "None \<notin> set page \<Longrightarrow> i \<in> set (spec_tag_page l s page) \<Longrightarrow> \<exists>x c. i = CollectionObject (Some x) c"
  unfolding spec_tag_page_def
  by (auto simp: in_set_conv_nth)

lemma spec_tag_pages_objects:
  "\<forall>q\<in>set ps. None \<notin> set (Data q) \<Longrightarrow> i \<in> set (spec_tag_pages s ps)
     \<Longrightarrow> \<exists>x c. i = CollectionObject (Some x) c"
proof (induction ps arbitrary: s)
  case Nil
  then show ?case by simp
next
  case (Cons p ps)
  then show ?case by (auto dest: spec_tag_page_objects)
qed

lemma newIterator_no_options:
  "newIterator lib cli u []
     = Inr ((new_Iterator cli)\<lparr>links := \<lparr>Self = [], Next = url_string lib u []\<rparr>\<rparr>, 0)"
  by (simp add: newIterator_def new_Iterator_def Let_def)

lemma ordering_pages:
  assumes served: "pages_served lib cli (url_string lib u []) (p # ps)"
    and objs: "\<forall>q\<in>set (p # ps). None \<notin> set (Data q)"
    and nd: "case_done \<notin> set sched"
    and en: "length (concat (map Data (p # ps))) \<le> count_list sched case_send"
  shows "\<exists>it0 it1 it2.
           newIterator lib cli u [] = Inr (it0, 0)
         \<and> iterate lib sched 0 it0 = Returned it1
         \<and> Next_loop lib it1 = Returned (concat (map Data (p # ps)), it2)
         \<and> Iterator_Next lib it2 = Returned (False, it2)
         \<and> Iterator_Error it2 = None"
proof -
  let ?it0 = "(new_Iterator cli)\<lparr>links := \<lparr>Self = [], Next = url_string lib u []\<rparr>\<rparr>"
  let ?tags = "spec_tag_pages (nat 0) (p # ps)"
  let ?it1 = "?it0\<lparr>links := Links (last (p # ps)), meta := Meta (last (p # ps)),
                          closed := True,
                          ch := \<lparr>buf = ?tags, chan_closed = True\<rparr>,
                          done' := \<lparr>buf = [], chan_closed = True\<rparr>\<rparr>"
  let ?it2 = "?it1\<lparr>ch := (ch ?it1)\<lparr>buf := []\<rparr>,
                  next' := (if ?tags = [] then next' ?it1 else object (last ?tags)),
                  cursor := (if ?tags = [] then cursor ?it1
                             else cursor_encode lib (item_cursor (last ?tags))),
                  count := count ?it1 + int (length ?tags)\<rparr>"
  have s0: "pages_served lib (client ?it0) (Next (links ?it0)) (p # ps)"
    using served by (simp add: new_Iterator_def)
  have p0: "nat 0 < length (Data p)" using served by simp
  have en': "length ?tags \<le> count_list sched case_send"
    using en by (simp add: length_spec_tag_pages_0)
  have i: "iterate lib sched 0 ?it0 = Returned ?it1"
    by (rule iterate_pages [OF s0 _ _ p0 nd en']) (simp_all add: new_Iterator_def)
  have all: "\<forall>i\<in>set ?tags. \<exists>x c. i = CollectionObject (Some x) c"
    using spec_tag_pages_objects [OF objs] by blast
  have l1: "limit ?it1 = 0" by (simp add: new_Iterator_def)
  have b1: "buf (ch ?it1) = ?tags @ []" by simp
  have n2: "Iterator_Next lib ?it2 = Returned (False, ?it2)"
    by (rule Next_closed) (simp_all add: new_Iterator_def)
  then have "Next_loop lib ?it2 = Returned ([], ?it2)"
    by (subst Next_loop.simps) simp
  with Next_loop_objects [OF l1 b1 all, of lib]
  have "Next_loop lib ?it1 = Returned (map object ?tags, ?it2)" by simp
  then have nl: "Next_loop lib ?it1 = Returned (concat (map Data (p # ps)), ?it2)"
    unfolding map_object_spec_tag_pages by simp
  have e2: "Iterator_Error ?it2 = None" by (simp add: Iterator_Error_def new_Iterator_def)
  from newIterator_no_options [of lib cli u] i nl n2 e2 show ?thesis by blast
qed

text \<open>
  C3: for every backend that serves the pages [[a, b], [c, d]] linked sequentially, the
  iterator made with no option, whose producer is not cancelled and whose four sends get
  through, yields \<open>a\<close>, \<open>b\<close>, \<open>c\<close>, \<open>d\<close> in this order, each once, to the loop
  \<open>for it.Next() { it.Get() }\<close>; the call of \<open>Next\<close> after \<open>d\<close> returns false, as does
  every later one (it leaves the iterator as it is), and there is no error.
\<close>

theorem ordering_two_pages:
  assumes "pages_served lib cli (url_string lib u [])
             [\<lparr>Data = [Some a, Some b], Links = l1, Meta = m1\<rparr>,
              \<lparr>Data = [Some c, Some d], Links = l2, Meta = m2\<rparr>]"
    and "case_done \<notin> set sched"
    and "4 \<le> count_list sched case_send"
  shows "\<exists>it0 it1 it2.
           newIterator lib cli u [] = Inr (it0, 0)
         \<and> iterate lib sched 0 it0 = Returned it1
         \<and> Next_loop lib it1 = Returned ([Some a, Some b, Some c, Some d], it2)
         \<and> Iterator_Next lib it2 = Returned (False, it2)
         \<and> Iterator_Error it2 = None"
  using ordering_pages [OF assms(1) _ assms(2)] assms(3) by simp

lemma example_pages_served:
  "pages_served example_library example_client (url_string example_library ''/p1'' [])
     [\<lparr>Data = [Some 1, Some 2], Links = \<lparr>Self = ''/p1'', Next = ''/p2''\<rparr>, Meta = None\<rparr>,
      \<lparr>Data = [Some 3, Some 4], Links = \<lparr>Self = ''/p2'', Next = []\<rparr>, Meta = None\<rparr>]"
  by (simp add: example_library_def example_client_def)

theorem ordering_two_pages_witness:
  "\<exists>it0 it1 it2.
     newIterator example_library example_client ''/p1'' [] = Inr (it0, 0)
   \<and> iterate example_library [case_send, case_default, case_send, case_send, case_send] 0 it0
       = Returned it1
   \<and> Next_loop example_library it1 = Returned ([Some 1, Some 2, Some 3, Some 4], it2)
   \<and> Iterator_Next example_library it2 = Returned (False, it2)
   \<and> Iterator_Error it2 = None"
  using ordering_two_pages [OF example_pages_served,
      of "[case_send, case_default, case_send, case_send, case_send]"]
  by simp





lemma Next_loop_step:
  "Iterator_Next lib it = Returned (b, it') \<Longrightarrow>
   Next_loop lib it
     = (if b then (case Next_loop lib it' of
                     Returned (objs, it'') \<Rightarrow> Returned (Iterator_Get it' # objs, it'')
                   | Panicked p \<Rightarrow> Panicked p
                   | Waiting \<Rightarrow> Waiting)
        else Returned ([], it'))"
  by (subst Next_loop.simps) simp

text \<open>
  C4: for an iterator with a limit \<open>n > 0\<close> and nothing delivered yet, among any number of
  successive calls of \<open>Next\<close> at most \<open>n\<close> return true; once \<open>n\<close> items were delivered,
  every call of \<open>Next\<close> returns false and leaves the iterator as it is (it does not
  receive from the channel, and the error stays what it was); and \<open>WithLimit(2)\<close> over
  the pages [[a, b], [c, d]] yields \<open>a\<close> and \<open>b\<close>, then false, with no error.
\<close>

theorem limit_enforced:
  assumes "0 < n"
  shows "(limit it = n \<and> count it = 0 \<and> Next_calls k lib it = Returned (bs, it')
            \<longrightarrow> int (length (filter (\<lambda>x. x) bs)) \<le> n)
       \<and> (limit p = n \<and> count p = n \<longrightarrow> Next_calls m lib p = Returned (replicate m False, p))
       \<and> (pages_served lib cli (url_string lib u [])
             [\<lparr>Data = [Some a, Some b], Links = l1, Meta = m1\<rparr>,
              \<lparr>Data = [Some c, Some d], Links = l2, Meta = m2\<rparr>]
           \<and> case_done \<notin> set sched \<and> 2 \<le> count_list sched case_send
            \<longrightarrow> (\<exists>it0 it1 it2.
                   newIterator lib cli u [WithLimit 2] = Inr (it0, 0)
                 \<and> iterate lib sched 0 it0 = Returned it1
                 \<and> Next_loop lib it1 = Returned ([Some a, Some b], it2)
                 \<and> Iterator_Error it2 = None
                 \<and> Next_calls m lib it2 = Returned (replicate m False, it2)))"
proof (intro conjI impI)
  assume "limit it = n \<and> count it = 0 \<and> Next_calls k lib it = Returned (bs, it')"
  with assms Next_calls_trues [of it k lib bs it']
  show "int (length (filter (\<lambda>x. x) bs)) \<le> n" by simp
next
  assume "limit p = n \<and> count p = n"
  with assms show "Next_calls m lib p = Returned (replicate m False, p)"
    by (simp add: Next_calls_at_limit)
next
  assume h: "pages_served lib cli (url_string lib u [])
             [\<lparr>Data = [Some a, Some b], Links = l1, Meta = m1\<rparr>,
              \<lparr>Data = [Some c, Some d], Links = l2, Meta = m2\<rparr>]
           \<and> case_done \<notin> set sched \<and> 2 \<le> count_list sched case_send"
  let ?p1 = "\<lparr>Data = [Some a, Some b], Links = l1, Meta = m1\<rparr>"
  let ?it0 = "(new_Iterator cli)\<lparr>limit := 2, links := \<lparr>Self = [], Next = url_string lib u []\<rparr>\<rparr>"
  let ?it1 = "?it0\<lparr>links := l1, meta := m1\<rparr>"
  let ?it2 = "?it1\<lparr>ch := (ch ?it1)\<lparr>buf := buf (ch ?it1) @ spec_tag_page (links ?it1) (nat 0) (Data ?p1)\<rparr>\<rparr>"
  let ?it3 = "?it1\<lparr>closed := True,
                ch := \<lparr>buf = [CollectionObject (Some a) \<lparr>Link = Self l1, Offset = 1\<rparr>,
                              CollectionObject (Some b) \<lparr>Link = Next l1, Offset = 0\<rparr>],
                       chan_closed = True\<rparr>,
                done' := \<lparr>buf = [], chan_closed = True\<rparr>\<rparr>"
  let ?it4 = "?it3\<lparr>ch := \<lparr>buf = [], chan_closed = True\<rparr>, next' := Some b,
                   cursor := cursor_encode lib \<lparr>Link = Next l1, Offset = 0\<rparr>, count := 2\<rparr>"
  have ni: "newIterator lib cli u [WithLimit 2] = Inr (?it0, 0)"
    by (simp add: newIterator_def WithLimit_def new_Iterator_def Let_def)
  from h have g: "getMoreObjects lib ?it0 = (Inr (Data ?p1), ?it1)"
    by (auto simp: getMoreObjects_def new_Iterator_def split: sum.splits)
  have op: "\<not> chan_closed (ch ?it0)" by (simp add: new_Iterator_def make_chan_def)
  from h have nd: "case_done \<notin> set sched"
    and en: "length (Data ?p1) - nat 0 \<le> count_list sched case_send" by simp_all
  from loop_body_page [OF g _ _ nd en op, of 0] obtain cont sched' where
    b1: "loop_body lib sched 0 0 ?it0
           = Returned (cont, sched', 0 + int (length (Data ?p1) - nat 0), ?it2)"
    by auto
  have "iterate_loop lib sched' 0 (0 + int (length (Data ?p1) - nat 0)) ?it2 = Returned ?it2"
    by (subst iterate_loop.simps) (simp add: new_Iterator_def)
  moreover have "iterate_loop lib sched 0 0 ?it0
          = (if cont then iterate_loop lib sched' 0 (0 + int (length (Data ?p1) - nat 0)) ?it2
             else Returned ?it2)"
    by (subst iterate_loop.simps, subst b1) (simp add: new_Iterator_def)
  ultimately have "iterate_loop lib sched 0 0 ?it0 = Returned ?it2" by simp
  then have i: "iterate lib sched 0 ?it0 = Returned ?it3"
    unfolding iterate_def
    by (simp add: chan_close_def chan_close_unbuffered_def new_Iterator_def make_chan_def
          spec_tag_page_2)
  have n1: "Iterator_Next lib ?it3
              = Returned (True, ?it3\<lparr>ch := \<lparr>buf = [CollectionObject (Some b) \<lparr>Link = Next l1, Offset = 0\<rparr>],
                       chan_closed = True\<rparr>, next' := Some a,
                   cursor := cursor_encode lib \<lparr>Link = Self l1, Offset = 1\<rparr>, count := 1\<rparr>)"
    by (simp add: Iterator_Next_def chan_recv_def new_Iterator_def)
  have n2: "Iterator_Next lib (?it3\<lparr>ch := \<lparr>buf = [CollectionObject (Some b) \<lparr>Link = Next l1, Offset = 0\<rparr>],
                       chan_closed = True\<rparr>, next' := Some a,
                   cursor := cursor_encode lib \<lparr>Link = Self l1, Offset = 1\<rparr>, count := 1\<rparr>)
              = Returned (True, ?it4)"
    by (simp add: Iterator_Next_def chan_recv_def new_Iterator_def)
  have n3: "Iterator_Next lib ?it4 = Returned (False, ?it4)"
    by (simp add: Iterator_Next_def)
  have nl: "Next_loop lib ?it3 = Returned ([Some a, Some b], ?it4)"
    using Next_loop_step [OF n1] Next_loop_step [OF n2] Next_loop_step [OF n3]
    by (simp add: Iterator_Get_def)
  have e4: "Iterator_Error ?it4 = None" by (simp add: Iterator_Error_def new_Iterator_def)
  have c4: "Next_calls m lib ?it4 = Returned (replicate m False, ?it4)"
    by (rule Next_calls_at_limit) simp_all
  from ni i nl e4 c4
  show "\<exists>it0 it1 it2.
                   newIterator lib cli u [WithLimit 2] = Inr (it0, 0)
                 \<and> iterate lib sched 0 it0 = Returned it1
                 \<and> Next_loop lib it1 = Returned ([Some a, Some b], it2)
                 \<and> Iterator_Error it2 = None
                 \<and> Next_calls m lib it2 = Returned (replicate m False, it2)"
    by blast
qed

theorem limit_enforced_witness:
  "(\<exists>it0 it1 it2.
      newIterator example_library example_client ''/p1'' [WithLimit 2] = Inr (it0, 0)
    \<and> iterate example_library [case_send, case_send] 0 it0 = Returned it1
    \<and> Next_loop example_library it1 = Returned ([Some 1, Some 2], it2)
    \<and> Iterator_Error it2 = None
    \<and> Next_calls 3 example_library it2 = Returned (replicate 3 False, it2))"
proof -
  have s: "case_done \<notin> set [case_send, case_send]"
    "2 \<le> count_list [case_send, case_send] case_send" by simp_all
  have n: "(0::int) < 2" by simp
  from limit_enforced [OF n, where lib = example_library and cli = example_client
      and u = "''/p1''" and a = 1 and b = 2 and c = 3 and d = 4
      and ?l1.0 = "\<lparr>Self = ''/p1'', Next = ''/p2''\<rparr>" and ?l2.0 = "\<lparr>Self = ''/p2'', Next = []\<rparr>"
      and ?m1.0 = None and ?m2.0 = None and sched = "[case_send, case_send]" and m = 3]
    example_pages_served s
  show ?thesis by blast
qed

section \<open>Resumption from a cursor token\<close>









end
